theory Spec2Isabelle
  imports Complex_Main "HOL-Library.Multiset"
begin

section \<open>Conventions of the embedding\<close>

text \<open>
  The tensor operations of the source act elementwise on a leading event axis.  The
  embedding is the function computed for one event; a statement about it holds for every
  event of a batch.  Floating-point numbers are idealised as \<^typ>\<open>real\<close> and
  \<^typ>\<open>complex\<close>: rounding, overflow and NaN are outside the model.
\<close>

datatype error = KeyError | IndexError | StopIteration | NameError | ValueError

section \<open>Wigner rotation engine (tf\_pwa/dfun.py)\<close>

text \<open>Python's \<^verbatim>\<open>range(lo, hi, 2)\<close>.\<close>

definition range2 :: "int \<Rightarrow> int \<Rightarrow> int list" where
  "range2 lo hi = map (\<lambda>i. lo + 2 * int i) [0 ..< nat ((hi - lo + 1) div 2)]"

text \<open>
  The local helper \<^verbatim>\<open>f(x) = math.factorial(x//2)\<close> of \<^verbatim>\<open>small_d_weight\<close>.
  Every argument it receives inside the loops is non-negative.
\<close>

definition f :: "int \<Rightarrow> nat" where
  "f x = fact (nat (x div 2))"

text \<open>The value \<^verbatim>\<open>tmp\<close> computed in the innermost loop body, all arguments doubled.\<close>

definition weight_tmp :: "int \<Rightarrow> int \<Rightarrow> int \<Rightarrow> int \<Rightarrow> real" where
  "weight_tmp j m n k =
     (let sign = (- 1) ^ nat ((k + m - n) div 2);
          tmp = sign * sqrt (real (f (j + m) * f (j - m) * f (j + n) * f (j - n)))
      in tmp / real (f (j - m - k) * f (j + n - k) * f (k + m - n) * f k))"

text \<open>
  \<^verbatim>\<open>small_d_weight(j)\<close>: the array \<^verbatim>\<open>ret\<close> starts as zeros and is written at
  \<^verbatim>\<open>[l][(m+j)//2][(n+j)//2]\<close> by three nested loops.  The array is a function of
  its index triple.  The spin label \<open>j\<close> is twice the spin.
\<close>

definition small_d_weight :: "nat \<Rightarrow> nat \<times> nat \<times> nat \<Rightarrow> real" where
  "small_d_weight j =
     fold (\<lambda>m. fold (\<lambda>n. fold (\<lambda>k ret.
              ret ((nat ((2 * k + (m - n)) div 2), nat ((m + int j) div 2), nat ((n + int j) div 2))
                     := weight_tmp (int j) m n k))
            (range2 (max 0 (n - m)) (min (int j - m) (int j + n) + 1)))
          (range2 (- int j) (int j + 1)))
       (range2 (- int j) (int j + 1)) (\<lambda>_. 0)"

text \<open>
  \<^verbatim>\<open>small_d_matrix(theta, j)\<close>: entry \<open>(a, b)\<close> of the contraction
  \<^verbatim>\<open>einsum("il,lab->iab", sc, w)\<close> with \<^verbatim>\<open>sc[l] = sin(theta/2)**l * cos(theta/2)**(j-l)\<close>.
\<close>

definition small_d_matrix :: "real \<Rightarrow> nat \<Rightarrow> nat \<Rightarrow> nat \<Rightarrow> real" where
  "small_d_matrix theta j a b =
     (\<Sum>l\<le>j. (sin (theta / 2) ^ l * cos (theta / 2) ^ (j - l)) * small_d_weight j (l, a, b))"

text \<open>\<^verbatim>\<open>exp_i(theta, mi) = exp(complex(0, mi * theta))\<close>.\<close>

definition exp_i :: "real \<Rightarrow> real \<Rightarrow> complex" where
  "exp_i theta mi = exp (Complex 0 (mi * theta))"

text \<open>Entry \<open>a\<close> of \<^verbatim>\<open>m = np.arange(-j, j+1, 2)\<close>.\<close>

definition m_arange :: "nat \<Rightarrow> nat \<Rightarrow> real" where
  "m_arange j a = real_of_int (- int j + 2 * int a)"

text \<open>Entry \<open>(a, b)\<close> of \<^verbatim>\<open>D_matrix_conj(alpha, beta, gamma, j)\<close> for one event.\<close>

definition D_matrix_conj_entry :: "real \<Rightarrow> real \<Rightarrow> real \<Rightarrow> nat \<Rightarrow> nat \<Rightarrow> nat \<Rightarrow> complex" where
  "D_matrix_conj_entry alpha beta gamma j a b =
     (exp_i alpha (m_arange j a) * exp_i gamma (m_arange j b))
       * complex_of_real (small_d_matrix beta j a b)"

text \<open>The \<open>(j+1) \<times> (j+1)\<close> matrix returned for one event, as a list of rows.\<close>

definition D_matrix_conj :: "real \<Rightarrow> real \<Rightarrow> real \<Rightarrow> nat \<Rightarrow> complex list list" where
  "D_matrix_conj alpha beta gamma j =
     map (\<lambda>a. map (\<lambda>b. D_matrix_conj_entry alpha beta gamma j a b) [0 ..< j + 1]) [0 ..< j + 1]"

section \<open>Two-body momentum (tf\_pwa/cal\_angle.py)\<close>

definition Getp :: "real \<Rightarrow> real \<Rightarrow> real \<Rightarrow> real" where
  "Getp M_0 M_1 M_2 =
     (let M12S = M_1 + M_2;
          M12D = M_1 - M_2;
          p = (M_0 - M12S) * (M_0 + M12S) * (M_0 - M12D) * (M_0 + M12D);
          q = (p + \<bar>p\<bar>) / 2
      in sqrt q / (2 * M_0))"

section \<open>Relative momentum record (tf\_pwa/cal\_angle.py)\<close>

text \<open>
  A particle is identified by its name.  A decay is a core particle with its ordered
  outgoing particles; a decay chain is the list of its decays in iteration order.
\<close>

type_synonym particle = string

record decay =
  core :: particle
  outs :: "particle list"

type_synonym decay_chain = "decay list"

text \<open>Dictionary and list subscripts: a missing key or index raises.\<close>

definition getitem :: "('k \<rightharpoonup> 'v) \<Rightarrow> 'k \<Rightarrow> error + 'v" where
  "getitem d k = (case d k of None \<Rightarrow> Inl KeyError | Some v \<Rightarrow> Inr v)"

definition list_getitem :: "'a list \<Rightarrow> nat \<Rightarrow> error + 'a" where
  "list_getitem xs i = (if i < length xs then Inr (xs ! i) else Inl IndexError)"

definition bind_err :: "error + 'a \<Rightarrow> ('a \<Rightarrow> error + 'b) \<Rightarrow> error + 'b" where
  "bind_err r k = (case r of Inl e \<Rightarrow> Inl e | Inr v \<Rightarrow> k v)"

text \<open>
  The body of the loop of \<^verbatim>\<open>get_relative_momentum\<close> for one decay.  The data record
  maps a particle to its fields (here the mass \<^verbatim>\<open>"m"\<close> of one event is what is read);
  \<^verbatim>\<open>ret\<close> is the nested dictionary being built.
\<close>

type_synonym mass_data = "particle \<rightharpoonup> (string \<rightharpoonup> real)"
type_synonym q_record = "string \<rightharpoonup> (decay \<rightharpoonup> (string \<rightharpoonup> real))"

definition get_relative_momentum_body :: "mass_data \<Rightarrow> q_record \<Rightarrow> decay \<Rightarrow> error + q_record" where
  "get_relative_momentum_body data ret d =
     bind_err (getitem data (core d)) (\<lambda>dc.
     bind_err (getitem dc ''m'') (\<lambda>m0.
     bind_err (list_getitem (outs d) 0) (\<lambda>o0.
     bind_err (getitem data o0) (\<lambda>d0.
     bind_err (getitem d0 ''m'') (\<lambda>m1.
     bind_err (list_getitem (outs d) 1) (\<lambda>o1.
     bind_err (getitem data o1) (\<lambda>d1.
     bind_err (getitem d1 ''m'') (\<lambda>m2.
       let p = Getp m0 m1 m2 in
     bind_err (getitem ret ''decay'') (\<lambda>rd.
       let ret1 = ret(''decay'' \<mapsto> rd(d \<mapsto> Map.empty)) in
     bind_err (getitem ret1 ''decay'') (\<lambda>rd1.
     bind_err (getitem rd1 d) (\<lambda>e.
       Inr (ret1(''decay'' \<mapsto> rd1(d \<mapsto> e(''|q|'' \<mapsto> p)))))))))))))))"

fun get_relative_momentum_loop :: "mass_data \<Rightarrow> q_record \<Rightarrow> decay_chain \<Rightarrow> error + q_record" where
  "get_relative_momentum_loop data ret [] = Inr ret"
| "get_relative_momentum_loop data ret (d # ds) =
     bind_err (get_relative_momentum_body data ret d)
       (\<lambda>ret'. get_relative_momentum_loop data ret' ds)"

definition get_relative_momentum :: "mass_data \<Rightarrow> decay_chain \<Rightarrow> error + q_record" where
  "get_relative_momentum data decay_chain = get_relative_momentum_loop data Map.empty decay_chain"

text \<open>
  The formula of the docstring of \<^verbatim>\<open>D_matrix_conj\<close>, written from its words: the
  conjugate of the canonical Wigner D-matrix has the entry
  \<open>exp(i m1 alpha) * d(beta) * exp(i m2 gamma)\<close>, where \<open>m1\<close> and \<open>m2\<close> are the magnetic
  quantum numbers \<open>-j/2, -j/2 + 1, ..., j/2\<close> of the row and the column (the spin is half
  the label \<open>j\<close>).
\<close>

definition magnetic :: "nat \<Rightarrow> nat \<Rightarrow> real" where
  "magnetic j a = real a - real j / 2"

definition D_conj_canonical :: "real \<Rightarrow> real \<Rightarrow> real \<Rightarrow> nat \<Rightarrow> nat \<Rightarrow> nat \<Rightarrow> complex" where
  "D_conj_canonical alpha beta gamma j a b =
     cis (magnetic j a * alpha) * complex_of_real (small_d_matrix beta j a b)
       * cis (magnetic j b * gamma)"

section \<open>Group-algebra primitives (tf\_pwa/cov\_ten\_ir.py)\<close>

text \<open>Python 3's \<^verbatim>\<open>round\<close>: to the nearest integer, a tie to the even one.\<close>

definition py_round :: "real \<Rightarrow> int" where
  "py_round x =
     (let fl = \<lfloor>x\<rfloor>; d = x - of_int fl
      in if d < 1 / 2 then fl else if 1 / 2 < d then fl + 1
         else if even fl then fl else fl + 1)"

text \<open>
  \<^verbatim>\<open>_half2\<close>, \<^verbatim>\<open>_size\<close>, \<^verbatim>\<open>_srange\<close> and \<^verbatim>\<open>_S\<close>.  None of them has a raise
  statement: each call returns a value.
\<close>

definition half2 :: "real \<Rightarrow> int" where
  "half2 s = py_round (s * 2)"

definition size_spin :: "real \<Rightarrow> int" where
  "size_spin s = half2 s + 1"

definition srange :: "real \<Rightarrow> real list" where
  "srange s = map (\<lambda>i. real i - s) [0 ..< nat (size_spin s)]"

definition S_sym :: "real \<Rightarrow> rat" where
  "S_sym s = of_int (half2 s) / 2"

text \<open>
  \<^verbatim>\<open>CGlrs(l, r, s)\<close>.  The array is allocated first,
  \<^verbatim>\<open>np.zeros((_size(l), _size(r), _size(s)))\<close>, and numpy raises \<^verbatim>\<open>ValueError\<close>
  for a negative dimension.  The loops then fill it; \<^verbatim>\<open>range\<close> of a size that is not
  positive is empty.  The coefficient \<^verbatim>\<open>CG(...).doit().evalf()\<close> comes from sympy and
  is a parameter here.  The result is the filled array reversed along its three axes.
\<close>

definition CGlrs ::
  "(rat \<Rightarrow> rat \<Rightarrow> rat \<Rightarrow> rat \<Rightarrow> rat \<Rightarrow> rat \<Rightarrow> real) \<Rightarrow> real \<Rightarrow> real \<Rightarrow> real
     \<Rightarrow> error + real list list list" where
  "CGlrs CG l r s =
     (if size_spin l < 0 \<or> size_spin r < 0 \<or> size_spin s < 0 then Inl ValueError
      else Inr (rev (map (\<lambda>li. rev (map (\<lambda>ri. rev (map (\<lambda>si.
            CG (S_sym l) (S_sym li) (S_sym r) (S_sym ri) (S_sym s) (S_sym si))
          (srange s))) (srange r))) (srange l))))"

section \<open>Lorentz representation builder (tf\_pwa/cov\_ten\_ir.py)\<close>

datatype lorentz = LorentzVector (p0: real) (p1: real) (p2: real) (p3: real)

text \<open>Division of a four-vector by a scalar, \<^verbatim>\<open>p_Mu / c\<close>.\<close>

definition scale :: "lorentz \<Rightarrow> real \<Rightarrow> lorentz" where
  "scale p c = LorentzVector (p0 p / c) (p1 p / c) (p2 p / c) (p3 p / c)"

text \<open>
  The angles \<^verbatim>\<open>(CurlyTheta, Theta, Phi)\<close> that \<^verbatim>\<open>LorentzInvSC_m_zero\<close> derives from
  a four-momentum, with \<^verbatim>\<open>tf.where\<close> as the choice made for one event.  These are
  the statements of the function up to \<^verbatim>\<open>l, r = s, 0\<close>; the call of the matrix builder
  \<^verbatim>\<open>LorentzRotationSC(l, r, Theta, Phi)\<close> that ends the function is not part of the
  embedding.
\<close>

definition LorentzInvSC_m_zero_angles :: "lorentz \<Rightarrow> real \<times> real \<times> real" where
  "LorentzInvSC_m_zero_angles p_Mu =
     (let x = scale p_Mu (p0 p_Mu);
          x1 = p1 x; x2 = p2 x; x3 = p3 x;
          zeros = 0;
          CurlyTheta = zeros;
          Theta = (if x1 = 0 \<and> x2 = 0 then zeros else arccos x3);
          Phi = (if x1 = 0 \<and> x2 = 0 then zeros
                 else if x2 \<ge> 0 then arccos (x1 / sqrt (1 - x3 ^ 2))
                 else 2 * pi - arccos (x1 / sqrt (1 - x3 ^ 2)))
      in (CurlyTheta, Theta, Phi))"

text \<open>The local constant \<^verbatim>\<open>_epsilon = 1e-10\<close>.\<close>

definition epsilon :: real where
  "epsilon = 1 / 10 ^ 10"

text \<open>\<^verbatim>\<open>pp = reduce_sum(p_Mu * p_Mu * [1, -1, -1, -1])\<close>, the invariant mass squared.\<close>

definition inv_mass2 :: "lorentz \<Rightarrow> real" where
  "inv_mass2 p_Mu = p0 p_Mu * p0 p_Mu * 1 + p1 p_Mu * p1 p_Mu * (- 1)
               + p2 p_Mu * p2 p_Mu * (- 1) + p3 p_Mu * p3 p_Mu * (- 1)"

text \<open>
  The angles that \<^verbatim>\<open>LorentzInvSC_m_nzero\<close> derives: the statements of the function up
  to \<^verbatim>\<open>Phi\<close>.  The two lines that end the function, \<^verbatim>\<open>l, r = SCRep(s)\<close> and the
  call \<^verbatim>\<open>LorentzBoostSC(l, r, CurlyTheta, Theta, Phi)\<close>, are not part of the embedding.

  \<^verbatim>\<open>Theta\<close> is masked by \<^verbatim>\<open>cut1\<close> and \<^verbatim>\<open>Phi\<close> by \<^verbatim>\<open>cut2\<close>.  For a momentum
  on the z axis that is not at rest, \<^verbatim>\<open>Theta\<close> is the arc cosine of a quotient of modulus
  one, the end of the domain of \<^verbatim>\<open>acos\<close>: over the reals that is \<open>0\<close> or \<open>pi\<close>, in
  floating point the rounded quotient can leave the domain and \<^verbatim>\<open>acos\<close> is then NaN.
  The embedding says nothing reliable there, and the theorem of this development on these
  angles states no value of \<^verbatim>\<open>Theta\<close> outside \<^verbatim>\<open>cut1\<close>; the one on-axis value
  that is evaluated, at \<open>(5, 0, 0, -3)\<close>, has the quotient \<open>-0.75 / 0.75\<close>, which is exact in
  binary floating point as well.
\<close>

definition LorentzInvSC_m_nzero_angles :: "lorentz \<Rightarrow> real \<times> real \<times> real" where
  "LorentzInvSC_m_nzero_angles p_Mu =
     (let pp = inv_mass2 p_Mu;
          x = scale p_Mu (sqrt pp);
          x0 = p0 x; x1 = p1 x; x2 = p2 x; x3 = p3 x;
          zeros = 0;
          cut2 = (\<bar>x1\<bar> < epsilon \<and> \<bar>x2\<bar> < epsilon);
          cut1 = (cut2 \<and> \<bar>x3\<bar> < epsilon);
          CurlyTheta = (if cut1 then zeros else arcosh x0);
          Theta = (if cut1 then zeros else arccos (x3 / sqrt (x0 ^ 2 - 1)));
          Phi = (if cut1 then 0
                 else if cut2 then 0
                 else if x2 > 0 then arccos (x1 / sqrt (x0 ^ 2 - x3 ^ 2 - 1))
                 else 2 * pi - arccos (x1 / sqrt (x0 ^ 2 - x3 ^ 2 - 1)))
      in (CurlyTheta, Theta, Phi))"

text \<open>The polar and the azimuthal angle of a derived triple.\<close>

definition Theta_of :: "real \<times> real \<times> real \<Rightarrow> real" where
  "Theta_of a = fst (snd a)"

definition Phi_of :: "real \<times> real \<times> real \<Rightarrow> real" where
  "Phi_of a = snd (snd a)"

section \<open>Momentum inference (tf\_pwa/cal\_angle.py)\<close>

text \<open>
  Four-momenta are added componentwise; \<^verbatim>\<open>tf.reduce_sum(ps, 0)\<close> is the sum of the
  list \<^verbatim>\<open>ps\<close>.
\<close>

instantiation lorentz :: comm_monoid_add
begin

definition zero_lorentz :: lorentz where
  "zero_lorentz = LorentzVector 0 0 0 0"

definition plus_lorentz :: "lorentz \<Rightarrow> lorentz \<Rightarrow> lorentz" where
  "plus_lorentz a b = LorentzVector (p0 a + p0 b) (p1 a + p1 b) (p2 a + p2 b) (p3 a + p3 b)"

instance
  by standard (simp_all add: zero_lorentz_def plus_lorentz_def add.commute add.left_commute)

end

text \<open>
  The momentum record maps a particle to its fields, of which \<^verbatim>\<open>"p"\<close> is read and
  written here.  The inner loop \<^verbatim>\<open>for j in st[i]: ps.append(data[j]["p"])\<close>:
\<close>

type_synonym momentum_data = "particle \<rightharpoonup> (string \<rightharpoonup> lorentz)"

fun collect_p :: "momentum_data \<Rightarrow> particle list \<Rightarrow> error + lorentz list" where
  "collect_p data [] = Inr []"
| "collect_p data (j # js) =
     bind_err (getitem data j) (\<lambda>r.
     bind_err (getitem r ''p'') (\<lambda>p.
     bind_err (collect_p data js) (\<lambda>ps. Inr (p # ps))))"

text \<open>
  \<^verbatim>\<open>infer_momentum(data, decay_chain)\<close>.  The table \<^verbatim>\<open>st = decay_chain.sorted_table()\<close>
  is computed by a method that is not part of the sources at hand, so it is a parameter: the
  list of the dictionary's items \<^verbatim>\<open>(i, st[i])\<close> in iteration order.
\<close>

definition infer_momentum_body :: "momentum_data \<Rightarrow> particle \<times> particle list \<Rightarrow> error + momentum_data" where
  "infer_momentum_body data e =
     (case e of (i, js) \<Rightarrow>
        if data i \<noteq> None then Inr data
        else bind_err (collect_p data js) (\<lambda>ps. Inr (data(i \<mapsto> [''p'' \<mapsto> sum_list ps]))))"

fun infer_momentum :: "momentum_data \<Rightarrow> (particle \<times> particle list) list \<Rightarrow> error + momentum_data" where
  "infer_momentum data [] = Inr data"
| "infer_momentum data (e # es) =
     bind_err (infer_momentum_body data e) (\<lambda>data'. infer_momentum data' es)"

text \<open>The momentum stored for a particle, if any, and its value where it is stored.\<close>

definition momentum_of :: "momentum_data \<Rightarrow> particle \<Rightarrow> lorentz option" where
  "momentum_of data x = (case data x of None \<Rightarrow> None | Some r \<Rightarrow> r ''p'')"

definition the_p :: "momentum_data \<Rightarrow> particle \<Rightarrow> lorentz" where
  "the_p data x = (case momentum_of data x of None \<Rightarrow> 0 | Some p \<Rightarrow> p)"

text \<open>
  The outer particles of a chain are the outgoing particles that are the core of no decay.
\<close>

definition outer :: "decay_chain \<Rightarrow> particle list" where
  "outer chain = filter (\<lambda>x. x \<notin> core ` set chain) (concat (map outs chain))"

text \<open>
  What is known of the table: the example in \<^verbatim>\<open>prepare_data_from_dat_file\<close>,
  \<^verbatim>\<open>st = {b: [b], c: [c], d: [d], a: [b, c, d], r: [b, d]}\<close>, and the docstring of
  \<^verbatim>\<open>infer_momentum\<close> (momenta are inferred "from outer particles momentum").  The table
  maps a particle to the outer particles below it: an outer particle to itself, and the core
  of a decay to the entries of its outgoing particles taken together, in some order.
\<close>

definition table_of :: "(particle \<times> particle list) list \<Rightarrow> particle \<Rightarrow> particle list" where
  "table_of st x = (case map_of st x of None \<Rightarrow> [] | Some js \<Rightarrow> js)"

definition leaf_table :: "decay_chain \<Rightarrow> (particle \<times> particle list) list \<Rightarrow> bool" where
  "leaf_table chain st \<longleftrightarrow>
     (\<forall>x \<in> set (outer chain). map_of st x = Some [x]) \<and>
     (\<forall>e \<in> set st. set (snd e) \<subseteq> set (outer chain)) \<and>
     (\<forall>d \<in> set chain. core d \<in> fst ` set st \<and>
        mset (table_of st (core d)) = (\<Sum>x\<leftarrow>outs d. mset (table_of st x)))"

text \<open>
  The records that \<^verbatim>\<open>cal_angle_from_momentum\<close> passes: a momentum for every outer
  particle of the chain, and, where the core of a decay has an entry already (the top after
  the first chain of a group, an inner node shared with an earlier chain), that entry holds
  the sum of the momenta of the outer particles below the core.
\<close>

definition preset_sums :: "decay_chain \<Rightarrow> (particle \<times> particle list) list \<Rightarrow> momentum_data \<Rightarrow> bool" where
  "preset_sums chain st data \<longleftrightarrow>
     (\<forall>x \<in> set (outer chain). momentum_of data x \<noteq> None) \<and>
     (\<forall>d \<in> set chain. data (core d) \<noteq> None \<longrightarrow>
        momentum_of data (core d) = Some (sum_list (map (the_p data) (table_of st (core d)))))"

text \<open>The record that a run without a failing lookup returns, in closed form.\<close>

definition inferred :: "momentum_data \<Rightarrow> (particle \<times> particle list) list \<Rightarrow> momentum_data" where
  "inferred data st x =
     (if data x \<noteq> None then data x
      else (case map_of st x of None \<Rightarrow> None
            | Some js \<Rightarrow> Some [''p'' \<mapsto> sum_list (map (the_p data) js)]))"


text \<open>
  The topology of \<^verbatim>\<open>prepare_data_from_dat_file\<close>: \<open>A \<rightarrow> BC + D\<close>, \<open>BC \<rightarrow> B + C\<close>,
  with its table and a momentum record of the three final-state particles.
\<close>

abbreviation chain_BC :: decay_chain where
  "chain_BC \<equiv> [\<lparr>core = ''A'', outs = [''BC'', ''D'']\<rparr>, \<lparr>core = ''BC'', outs = [''B'', ''C'']\<rparr>]"

abbreviation table_BC :: "(particle \<times> particle list) list" where
  "table_BC \<equiv> [(''B'', [''B'']), (''C'', [''C'']), (''D'', [''D'']),
                (''BC'', [''B'', ''C'']), (''A'', [''B'', ''C'', ''D''])]"

abbreviation data_BCD :: momentum_data where
  "data_BCD \<equiv> [''B'' \<mapsto> [''p'' \<mapsto> LorentzVector 1 0 0 1],
               ''C'' \<mapsto> [''p'' \<mapsto> LorentzVector 2 1 0 0],
               ''D'' \<mapsto> [''p'' \<mapsto> LorentzVector 3 0 1 0]]"

text \<open>The same record after an earlier chain of the group has stored the top particle.\<close>

abbreviation data_ABCD :: momentum_data where
  "data_ABCD \<equiv> data_BCD(''A'' \<mapsto> [''p'' \<mapsto> LorentzVector 6 1 1 1])"

section \<open>Reference chains for the alignment angles (tf\_pwa/cal\_angle.py)\<close>

text \<open>
  The second half of \<^verbatim>\<open>cal_angle_from_particle\<close>.  \<^verbatim>\<open>decay_chain_struct\<close> is the list
  of the chains in iteration order, \<open>gtop\<close> and \<open>gouts\<close> are \<^verbatim>\<open>decay_group.top\<close> and
  \<^verbatim>\<open>decay_group.outs\<close>.  The dictionary \<^verbatim>\<open>set_x\<close> maps a final-state particle to
  its reference \<^verbatim>\<open>(decay_chain, decay)\<close>; \<^verbatim>\<open>ref_matrix[i]\<close> is always written together
  with \<^verbatim>\<open>set_x[i]\<close> and holds its first component.  The angle itself is computed by classes
  that are not among the sources at hand, so the record of the entries
  \<^verbatim>\<open>part_data[i]["aligned_angle"]\<close> keeps, for each \<open>(decay_chain, decay, i)\<close> written, the
  reference the angle is taken against.
\<close>

type_synonym reference = "particle \<rightharpoonup> (decay_chain \<times> decay)"
type_synonym aligned = "(decay_chain \<times> decay \<times> particle) \<rightharpoonup> (decay_chain \<times> decay)"

text \<open>First loop: particles that come from the top particle directly.\<close>

definition ref_top_outs :: "particle list \<Rightarrow> decay_chain \<Rightarrow> decay \<Rightarrow> particle list \<Rightarrow> reference \<Rightarrow> reference" where
  "ref_top_outs gouts decay_chain d os =
     fold (\<lambda>i set_x. if set_x i = None \<and> i \<in> set gouts then set_x(i \<mapsto> (decay_chain, d)) else set_x) os"

definition ref_top_decays :: "particle \<Rightarrow> particle list \<Rightarrow> decay_chain \<Rightarrow> decay list \<Rightarrow> reference \<Rightarrow> reference" where
  "ref_top_decays gtop gouts decay_chain ds =
     fold (\<lambda>d set_x. if core d = gtop then ref_top_outs gouts decay_chain d (outs d) set_x else set_x) ds"

definition ref_top :: "particle \<Rightarrow> particle list \<Rightarrow> decay_chain list \<Rightarrow> reference \<Rightarrow> reference" where
  "ref_top gtop gouts decay_chain_struct =
     fold (\<lambda>decay_chain. ref_top_decays gtop gouts decay_chain decay_chain) decay_chain_struct"

text \<open>
  Second loop: for a particle still without a reference, the first chain
  (\<^verbatim>\<open>next(iter(decay_chain_struct))\<close>, which raises StopIteration on an empty structure).
\<close>

definition ref_first_inner :: "decay_chain \<Rightarrow> particle \<Rightarrow> reference \<Rightarrow> reference" where
  "ref_first_inner decay_chain i =
     fold (\<lambda>d. fold (\<lambda>j set_x. if i = j then set_x(i \<mapsto> (decay_chain, d)) else set_x) (outs d)) decay_chain"

fun ref_first :: "decay_chain list \<Rightarrow> particle list \<Rightarrow> reference \<Rightarrow> error + reference" where
  "ref_first decay_chain_struct [] set_x = Inr set_x"
| "ref_first decay_chain_struct (i # is) set_x =
     (if set_x i = None then
        (case decay_chain_struct of
           [] \<Rightarrow> Inl StopIteration
         | decay_chain # _ \<Rightarrow> ref_first decay_chain_struct is (ref_first_inner decay_chain i set_x))
      else ref_first decay_chain_struct is set_x)"

text \<open>
  Third loop: an entry is written where \<^verbatim>\<open>i in decay_group.outs and decay_chain != set_x[i][0]\<close>.
\<close>

fun align_outs :: "particle list \<Rightarrow> reference \<Rightarrow> decay_chain \<Rightarrow> decay \<Rightarrow> particle list \<Rightarrow> aligned \<Rightarrow> error + aligned" where
  "align_outs gouts set_x decay_chain d [] al = Inr al"
| "align_outs gouts set_x decay_chain d (i # is) al =
     (if i \<in> set gouts then
        bind_err (getitem set_x i) (\<lambda>r.
          if decay_chain \<noteq> fst r
          then align_outs gouts set_x decay_chain d is (al((decay_chain, d, i) \<mapsto> r))
          else align_outs gouts set_x decay_chain d is al)
      else align_outs gouts set_x decay_chain d is al)"

fun align_decays :: "particle list \<Rightarrow> reference \<Rightarrow> decay_chain \<Rightarrow> decay list \<Rightarrow> aligned \<Rightarrow> error + aligned" where
  "align_decays gouts set_x decay_chain [] al = Inr al"
| "align_decays gouts set_x decay_chain (d # ds) al =
     bind_err (align_outs gouts set_x decay_chain d (outs d) al)
       (\<lambda>al'. align_decays gouts set_x decay_chain ds al')"

fun align_chains :: "particle list \<Rightarrow> reference \<Rightarrow> decay_chain list \<Rightarrow> aligned \<Rightarrow> error + aligned" where
  "align_chains gouts set_x [] al = Inr al"
| "align_chains gouts set_x (decay_chain # cs) al =
     bind_err (align_decays gouts set_x decay_chain decay_chain al)
       (\<lambda>al'. align_chains gouts set_x cs al')"

definition cal_angle_from_particle_align ::
  "particle \<Rightarrow> particle list \<Rightarrow> decay_chain list \<Rightarrow> error + (reference \<times> aligned)" where
  "cal_angle_from_particle_align gtop gouts decay_chain_struct =
     bind_err (ref_first decay_chain_struct gouts (ref_top gtop gouts decay_chain_struct Map.empty))
       (\<lambda>set_x. bind_err (align_chains gouts set_x decay_chain_struct Map.empty)
          (\<lambda>al. Inr (set_x, al)))"

text \<open>
  The rule in the words of the specification: the first chain with a decay of the top
  particle that has \<open>p\<close> among its outgoing particles; failing that, the first chain that
  contains \<open>p\<close>.
\<close>

definition top_daughter :: "particle \<Rightarrow> particle \<Rightarrow> decay_chain \<Rightarrow> bool" where
  "top_daughter gtop p c \<longleftrightarrow> (\<exists>d \<in> set c. core d = gtop \<and> p \<in> set (outs d))"

definition contains :: "particle \<Rightarrow> decay_chain \<Rightarrow> bool" where
  "contains p c \<longleftrightarrow> (\<exists>d \<in> set c. p \<in> set (outs d))"

definition reference_chain :: "particle \<Rightarrow> decay_chain list \<Rightarrow> particle \<Rightarrow> decay_chain option" where
  "reference_chain gtop cs p =
     (case find (top_daughter gtop p) cs of
        Some c \<Rightarrow> Some c
      | None \<Rightarrow> find (contains p) cs)"

text \<open>
  The chains of a decay group: there is at least one, and each of them contains every
  final-state particle of the group.
\<close>

definition group_chains :: "particle list \<Rightarrow> decay_chain list \<Rightarrow> bool" where
  "group_chains gouts cs \<longleftrightarrow> cs \<noteq> [] \<and> (\<forall>c \<in> set cs. \<forall>p \<in> set gouts. contains p c)"

text \<open>The chain of the reference stored for a particle.\<close>

definition chain_at :: "reference \<Rightarrow> particle \<Rightarrow> decay_chain option" where
  "chain_at set_x p = map_option fst (set_x p)"

text \<open>The condition under which the third loop writes the entry of \<open>(c, d, i)\<close>.\<close>

definition written :: "particle list \<Rightarrow> reference \<Rightarrow> decay_chain \<times> decay \<times> particle \<Rightarrow> bool" where
  "written G sx k \<longleftrightarrow>
     (case k of (c, d, i) \<Rightarrow> i \<in> set (outs d) \<and> i \<in> set G \<and> (\<forall>r. sx i = Some r \<longrightarrow> c \<noteq> fst r))"

text \<open>The other two chains of the group of \<^verbatim>\<open>prepare_data_from_dat_file\<close>.\<close>

abbreviation chain_BD :: decay_chain where
  "chain_BD \<equiv> [\<lparr>core = ''A'', outs = [''BD'', ''C'']\<rparr>, \<lparr>core = ''BD'', outs = [''B'', ''D'']\<rparr>]"

abbreviation chain_CD :: decay_chain where
  "chain_CD \<equiv> [\<lparr>core = ''A'', outs = [''CD'', ''B'']\<rparr>, \<lparr>core = ''CD'', outs = [''C'', ''D'']\<rparr>]"

section \<open>Helicity angles and the rotation accumulator (tf\_pwa/cal\_angle.py)\<close>

text \<open>
  \<^verbatim>\<open>cal_helicity_angle\<close> calls the classes \<^verbatim>\<open>LorentzVector\<close>, \<^verbatim>\<open>EulerAngle\<close> and
  \<^verbatim>\<open>SU2M\<close> of a module that is not among the sources at hand.  Their operations are
  parameters, collected in a record: the group elements of \<^verbatim>\<open>SU2M\<close> have an arbitrary
  type \<open>'r\<close> with the product \<open>mul\<close>.  An angle dictionary has the keys alpha, beta, gamma.
\<close>

type_synonym vec3 = "real \<times> real \<times> real"

record euler =
  ang_alpha :: real
  ang_beta :: real
  ang_gamma :: real

record 'r kinematics =
  rest_vector :: "lorentz \<Rightarrow> lorentz \<Rightarrow> lorentz"
  vect :: "lorentz \<Rightarrow> vec3"
  angle_zx_z_getx :: "vec3 \<Rightarrow> vec3 \<Rightarrow> vec3 \<Rightarrow> euler \<times> vec3"
  angle_zx_zzz_getx :: "vec3 \<Rightarrow> vec3 \<Rightarrow> vec3 list \<Rightarrow> euler \<times> vec3 list"
  Boost_z_from_p :: "lorentz \<Rightarrow> 'r"
  Rotation_y :: "real \<Rightarrow> 'r"
  Rotation_z :: "real \<Rightarrow> 'r"
  mul :: "'r \<Rightarrow> 'r \<Rightarrow> 'r"

text \<open>
  The entries \<^verbatim>\<open>ret[i][j]\<close> (keys "ang", "x", "z"; "ang" is absent after the three-body
  block has replaced the entry) and \<^verbatim>\<open>ret[i]\<close> with the joint angle \<^verbatim>\<open>ret[i]["ang"]\<close>;
  the local dictionaries of the function.
\<close>

record out_entry =
  ent_ang :: "euler option"
  ent_x :: vec3
  ent_z :: vec3

record decay_entry =
  per_out :: "particle \<rightharpoonup> out_entry"
  joint_ang :: "euler option"

record 'r helicity_state =
  st_ret :: "decay \<rightharpoonup> decay_entry"
  st_set_x :: "particle \<rightharpoonup> vec3"
  st_set_z :: "particle \<rightharpoonup> vec3"
  st_r_matrix :: "particle \<rightharpoonup> 'r"

text \<open>First loop: every outgoing momentum in the rest frame of the core.\<close>

type_synonym rest_data = "decay \<rightharpoonup> (particle \<rightharpoonup> lorentz)"

fun rest_outs :: "'r kinematics \<Rightarrow> momentum_data \<Rightarrow> lorentz \<Rightarrow> particle list
    \<Rightarrow> (particle \<rightharpoonup> lorentz) \<Rightarrow> error + (particle \<rightharpoonup> lorentz)" where
  "rest_outs K data p_rest [] m = Inr m"
| "rest_outs K data p_rest (j # js) m =
     bind_err (getitem data j) (\<lambda>dj.
     bind_err (getitem dj ''p'') (\<lambda>pj.
       rest_outs K data p_rest js (m(j \<mapsto> rest_vector K p_rest pj))))"

fun rest_frames :: "'r kinematics \<Rightarrow> momentum_data \<Rightarrow> decay list \<Rightarrow> rest_data \<Rightarrow> error + rest_data" where
  "rest_frames K data [] part_data = Inr part_data"
| "rest_frames K data (i # is) part_data =
     bind_err (getitem data (core i)) (\<lambda>dc.
     bind_err (getitem dc ''p'') (\<lambda>p_rest.
     bind_err (rest_outs K data p_rest (outs i) Map.empty) (\<lambda>m.
       rest_frames K data is (part_data(i \<mapsto> m)))))"

text \<open>
  \<^verbatim>\<open>r = Bp * Rotation_y(ang["beta"]) * Rotation_z(ang["alpha"])\<close>, multiplied onto
  \<^verbatim>\<open>r_matrix[i.core]\<close> when the core has one.
\<close>

definition compose_r :: "'r kinematics \<Rightarrow> 'r helicity_state \<Rightarrow> decay \<Rightarrow> lorentz \<Rightarrow> euler \<Rightarrow> 'r" where
  "compose_r K st i p_rest ang =
     (let Bp = Boost_z_from_p K p_rest;
          r = mul K (mul K Bp (Rotation_y K (ang_beta ang))) (Rotation_z K (ang_alpha ang))
      in case st_r_matrix st (core i) of Some rc \<Rightarrow> mul K r rc | None \<Rightarrow> r)"

text \<open>The assignment \<^verbatim>\<open>ret[i][j] = ...\<close>.\<close>

definition set_out :: "decay \<Rightarrow> particle \<Rightarrow> out_entry \<Rightarrow> (decay \<rightharpoonup> decay_entry) \<Rightarrow> error + (decay \<rightharpoonup> decay_entry)" where
  "set_out i j e rt =
     bind_err (getitem rt i) (\<lambda>ri. Inr (rt(i \<mapsto> ri\<lparr>per_out := (per_out ri)(j \<mapsto> e)\<rparr>)))"

text \<open>
  The loop \<^verbatim>\<open>for j in i.outs\<close>.  The second component of the state is the variable
  \<^verbatim>\<open>ang\<close> of the function, which keeps its last value after the loop.
\<close>

fun two_body :: "'r kinematics \<Rightarrow> rest_data \<Rightarrow> decay \<Rightarrow> particle list
    \<Rightarrow> 'r helicity_state \<times> euler option \<Rightarrow> error + ('r helicity_state \<times> euler option)" where
  "two_body K part_data i [] sa = Inr sa"
| "two_body K part_data i (j # js) sa =
     (case sa of (st, _) \<Rightarrow>
     bind_err (getitem part_data i) (\<lambda>pd.
     bind_err (getitem pd j) (\<lambda>p_rest.
     bind_err (getitem (st_set_z st) (core i)) (\<lambda>z1.
     bind_err (getitem (st_set_x st) (core i)) (\<lambda>x1.
       let z2 = vect K p_rest;
           (ang, x) = angle_zx_z_getx K z1 x1 z2
       in
     bind_err (set_out i j \<lparr>ent_ang = Some ang, ent_x = x, ent_z = z2\<rparr> (st_ret st)) (\<lambda>rt.
       let st1 = st\<lparr>st_ret := rt, st_set_x := (st_set_x st)(j \<mapsto> x), st_set_z := (st_set_z st)(j \<mapsto> z2)\<rparr>;
           st2 = st1\<lparr>st_r_matrix := (st_r_matrix st1)(j \<mapsto> compose_r K st1 i p_rest ang)\<rparr>
       in two_body K part_data i js (st2, Some ang)))))))"

text \<open>
  The block \<^verbatim>\<open>if len(i.outs) == 3\<close>.  Its loop runs over
  \<^verbatim>\<open>zip(i.outs, xi, zi, p_rest)\<close> and reads the variable \<^verbatim>\<open>ang\<close> as the loop before
  left it.
\<close>

fun collect_rest :: "(particle \<rightharpoonup> lorentz) \<Rightarrow> particle list \<Rightarrow> error + lorentz list" where
  "collect_rest pd [] = Inr []"
| "collect_rest pd (j # js) =
     bind_err (getitem pd j) (\<lambda>p. bind_err (collect_rest pd js) (\<lambda>ps. Inr (p # ps)))"

fun three_body_outs :: "'r kinematics \<Rightarrow> decay \<Rightarrow> euler
    \<Rightarrow> (particle \<times> vec3 \<times> vec3 \<times> lorentz) list \<Rightarrow> 'r helicity_state \<Rightarrow> error + 'r helicity_state" where
  "three_body_outs K i ang [] st = Inr st"
| "three_body_outs K i ang ((j, x, z, p_rest_i) # rest) st =
     bind_err (set_out i j \<lparr>ent_ang = None, ent_x = x, ent_z = z\<rparr> (st_ret st)) (\<lambda>rt.
       let st1 = st\<lparr>st_ret := rt\<rparr>;
           st2 = st1\<lparr>st_r_matrix := (st_r_matrix st1)(j \<mapsto> compose_r K st1 i p_rest_i ang)\<rparr>
       in three_body_outs K i ang rest st2)"

definition three_body :: "'r kinematics \<Rightarrow> rest_data \<Rightarrow> decay \<Rightarrow> euler \<Rightarrow> 'r helicity_state
    \<Rightarrow> error + 'r helicity_state" where
  "three_body K part_data i ang st =
     bind_err (getitem part_data i) (\<lambda>pd.
     bind_err (collect_rest pd (outs i)) (\<lambda>p_rest.
       let zi = map (vect K) p_rest in
     bind_err (getitem (st_set_z st) (core i)) (\<lambda>z1.
     bind_err (getitem (st_set_x st) (core i)) (\<lambda>x1.
       let (joint, xi) = angle_zx_zzz_getx K z1 x1 zi in
     bind_err (getitem (st_ret st) i) (\<lambda>ri.
       let st1 = st\<lparr>st_ret := (st_ret st)(i \<mapsto> ri\<lparr>joint_ang := Some joint\<rparr>)\<rparr>
       in three_body_outs K i ang (zip (outs i) (zip xi (zip zi p_rest))) st1)))))"

text \<open>
  The body of \<^verbatim>\<open>if i.core in set_x\<close> for one decay.  With three outgoing particles
  the loop before has bound \<^verbatim>\<open>ang\<close>; an unbound variable would be a NameError.
\<close>

definition process_decay :: "'r kinematics \<Rightarrow> rest_data \<Rightarrow> decay \<Rightarrow> 'r helicity_state \<times> euler option
    \<Rightarrow> error + ('r helicity_state \<times> euler option)" where
  "process_decay K part_data i sa =
     (case sa of (st, a) \<Rightarrow>
     bind_err (two_body K part_data i (outs i)
                 (st\<lparr>st_ret := (st_ret st)(i \<mapsto> \<lparr>per_out = Map.empty, joint_ang = None\<rparr>)\<rparr>, a)) (\<lambda>(st1, a1).
       if length (outs i) = 3 then
         (case a1 of
            Some ang \<Rightarrow> bind_err (three_body K part_data i ang st1) (\<lambda>st2. Inr (st2, a1))
          | None \<Rightarrow> Inl NameError)
       else Inr (st1, a1)))"

text \<open>One pass of \<^verbatim>\<open>for i in set_decay\<close>, collecting \<^verbatim>\<open>extra_decay\<close>.\<close>

fun pass :: "'r kinematics \<Rightarrow> rest_data \<Rightarrow> decay list \<Rightarrow> 'r helicity_state \<times> euler option \<Rightarrow> decay list
    \<Rightarrow> error + (('r helicity_state \<times> euler option) \<times> decay list)" where
  "pass K part_data [] sa extra_decay = Inr (sa, extra_decay)"
| "pass K part_data (i # is) sa extra_decay =
     (if core i \<in> dom (st_set_x (fst sa))
      then bind_err (process_decay K part_data i sa) (\<lambda>sa'. pass K part_data is sa' extra_decay)
      else pass K part_data is sa (extra_decay @ [i]))"

text \<open>
  \<^verbatim>\<open>while set_decay\<close>: the loop does not end when a pass resolves no decay, so the
  result is an option and \<open>None\<close> stands for a run that does not return.
\<close>

partial_function (option) helicity_while :: "'r kinematics \<Rightarrow> rest_data \<Rightarrow> 'r helicity_state \<times> euler option
    \<Rightarrow> decay list \<Rightarrow> (error + 'r helicity_state) option" where
  "helicity_while K part_data sa set_decay =
     (if set_decay = [] then Some (Inr (fst sa))
      else (case pass K part_data set_decay sa [] of
              Inl e \<Rightarrow> Some (Inl e)
            | Inr (sa', extra_decay) \<Rightarrow> helicity_while K part_data sa' extra_decay))"

text \<open>
  \<^verbatim>\<open>cal_helicity_angle(data, decay_chain, base_z, base_x)\<close>; \<open>gtop\<close> is
  \<^verbatim>\<open>decay_chain.top\<close>.  The returned state holds \<^verbatim>\<open>ret\<close> and
  \<^verbatim>\<open>ret["r_matrix"] = r_matrix\<close>.
\<close>

definition cal_helicity_angle :: "'r kinematics \<Rightarrow> momentum_data \<Rightarrow> particle \<Rightarrow> decay_chain \<Rightarrow> vec3 \<Rightarrow> vec3
    \<Rightarrow> (error + 'r helicity_state) option" where
  "cal_helicity_angle K data gtop decay_chain base_z base_x =
     (case rest_frames K data decay_chain Map.empty of
        Inl e \<Rightarrow> Some (Inl e)
      | Inr part_data \<Rightarrow>
          helicity_while K part_data
            (\<lparr>st_ret = Map.empty, st_set_x = [gtop \<mapsto> base_x], st_set_z = [gtop \<mapsto> base_z],
              st_r_matrix = Map.empty\<rparr>, None)
            decay_chain)"


text \<open>
  The operator of the claim for an outgoing particle, in its words: the boost derived from
  the particle's momentum in the rest frame of its parent, times the rotation about y by
  the particle's own angle beta, times the rotation about z by its own angle alpha.
\<close>

definition claimed_r :: "'r kinematics \<Rightarrow> vec3 \<Rightarrow> vec3 \<Rightarrow> lorentz \<Rightarrow> 'r" where
  "claimed_r K z x p_rest =
     (let ang = fst (angle_zx_z_getx K z x (vect K p_rest))
      in mul K (mul K (Boost_z_from_p K p_rest) (Rotation_y K (ang_beta ang)))
           (Rotation_z K (ang_alpha ang)))"

text \<open>A chain with one three-body decay, \<open>A \<rightarrow> B + C + D\<close>, and a momentum record for it.\<close>

abbreviation chain_3 :: decay_chain where
  "chain_3 \<equiv> [\<lparr>core = ''A'', outs = [''B'', ''C'', ''D'']\<rparr>]"

abbreviation data_3 :: "lorentz \<Rightarrow> lorentz \<Rightarrow> lorentz \<Rightarrow> lorentz \<Rightarrow> momentum_data" where
  "data_3 pA pB pC pD \<equiv> [''A'' \<mapsto> [''p'' \<mapsto> pA], ''B'' \<mapsto> [''p'' \<mapsto> pB],
                          ''C'' \<mapsto> [''p'' \<mapsto> pC], ''D'' \<mapsto> [''p'' \<mapsto> pD]]"

text \<open>
  An interpretation of the parameters in which the structure of a product stays visible:
  a group element is the word of its factors.  The angles of a direction are read off its
  first two components, and momenta are left as they are.  It serves to run the model on
  concrete data.
\<close>

datatype gen = Boost lorentz | RotY real | RotZ real

definition word_kinematics :: "gen list kinematics" where
  "word_kinematics =
     \<lparr>rest_vector = (\<lambda>p q. q),
      vect = (\<lambda>p. (p1 p, p2 p, p3 p)),
      angle_zx_z_getx = (\<lambda>z x z2. (\<lparr>ang_alpha = fst z2, ang_beta = fst (snd z2), ang_gamma = 0\<rparr>, x)),
      angle_zx_zzz_getx = (\<lambda>z x zs. (\<lparr>ang_alpha = 0, ang_beta = 0, ang_gamma = 0\<rparr>, map (\<lambda>_. x) zs)),
      Boost_z_from_p = (\<lambda>p. [Boost p]),
      Rotation_y = (\<lambda>b. [RotY b]),
      Rotation_z = (\<lambda>a. [RotZ a]),
      mul = (@)\<rparr>"

section \<open>Notions used for the unitarity of the D-matrix\<close>

text \<open>
  The product of a matrix, given as the list of its rows, with its conjugate transpose: the
  entry for the rows \<open>r\<close> and \<open>r'\<close> is the sum of \<open>r[k] * cnj (r'[k])\<close> over the columns.
  And the identity matrix of a given size.
\<close>

definition times_adjoint :: "complex list list \<Rightarrow> complex list list" where
  "times_adjoint M = map (\<lambda>r. map (\<lambda>r'. (\<Sum>(x, y)\<leftarrow>zip r r'. x * cnj y)) M) M"

definition identity_matrix :: "nat \<Rightarrow> complex list list" where
  "identity_matrix n = map (\<lambda>a. map (\<lambda>b. if a = b then 1 else 0) [0 ..< n]) [0 ..< n]"

text \<open>
  The coefficient of \<open>x^b y^(J-b)\<close> in the polynomial
  \<open>(al x + be y)^a (ga x + de y)^(J-a)\<close>: how a linear substitution acts on the monomials
  of degree \<open>J\<close> in two variables.
\<close>

definition subst_coeff :: "real \<Rightarrow> real \<Rightarrow> real \<Rightarrow> real \<Rightarrow> nat \<Rightarrow> nat \<Rightarrow> nat \<Rightarrow> real" where
  "subst_coeff al be ga de J a b =
     (\<Sum>p\<le>b. (real (a choose p) * al ^ p * be ^ (a - p))
              * (real ((J - a) choose (b - p)) * ga ^ (b - p) * de ^ ((J - a) - (b - p))))"

text \<open>
  Wigner's sum for the small-d matrix with the square roots of the factorials taken out,
  in the indices \<open>a, b = 0, ..., J\<close> of the table and with \<open>c\<close> and \<open>s\<close> for the cosine and
  the sine of the half angle.
\<close>

definition wigner_term :: "nat \<Rightarrow> nat \<Rightarrow> nat \<Rightarrow> real \<Rightarrow> real \<Rightarrow> nat \<Rightarrow> real" where
  "wigner_term J a b c s p =
     (- s) ^ (a - p) * s ^ (b - p) * c ^ (J + 2 * p - a - b)
       / (fact p * fact (a - p) * fact (b - p) * fact (J + p - a - b))"

definition wigner_sum :: "nat \<Rightarrow> nat \<Rightarrow> nat \<Rightarrow> real \<Rightarrow> real \<Rightarrow> real" where
  "wigner_sum J a b c s = (\<Sum>p = a + b - J .. min a b. wigner_term J a b c s p)"

text \<open>
  The writes of the three loops of \<^verbatim>\<open>small_d_weight\<close> in natural indices.  For the
  row \<open>a = (m+j)/2\<close> and the column \<open>b = (n+j)/2\<close> the innermost loop runs \<open>cnt j a b\<close> times;
  its \<open>i\<close>-th pass has \<open>k = 2 ((b - a) + i)\<close>, writes the value \<open>wval j a b i\<close> and writes it
  at the first index \<open>lidx a b i\<close>.  \<open>writes j\<close> lists the passes in the order of the loops,
  \<open>write_entry\<close> is the assignment of one pass, \<open>wkey\<close> its index triple and \<open>wv\<close> its
  value.
\<close>

definition lidx :: "nat \<Rightarrow> nat \<Rightarrow> nat \<Rightarrow> nat" where
  "lidx a b i = (a - b) + (b - a) + 2 * i"

definition cnt :: "nat \<Rightarrow> nat \<Rightarrow> nat \<Rightarrow> nat" where
  "cnt j a b = Suc (min (min a b) (min (j - a) (j - b)))"

definition wval :: "nat \<Rightarrow> nat \<Rightarrow> nat \<Rightarrow> nat \<Rightarrow> real" where
  "wval j a b i = weight_tmp (int j) (2 * int a - int j) (2 * int b - int j) (2 * int ((b - a) + i))"

definition writes :: "nat \<Rightarrow> (nat \<times> nat \<times> nat) list" where
  "writes j = concat (map (\<lambda>a. concat (map (\<lambda>b. map (\<lambda>i. (a, b, i)) [0 ..< cnt j a b]) [0 ..< Suc j]))
                [0 ..< Suc j])"

definition write_entry :: "nat \<Rightarrow> nat \<times> nat \<times> nat \<Rightarrow> (nat \<times> nat \<times> nat \<Rightarrow> real) \<Rightarrow> nat \<times> nat \<times> nat \<Rightarrow> real" where
  "write_entry j t ret = (case t of (a, b, i) \<Rightarrow> ret((lidx a b i, a, b) := wval j a b i))"

definition wkey :: "nat \<times> nat \<times> nat \<Rightarrow> nat \<times> nat \<times> nat" where
  "wkey t = (case t of (a, b, i) \<Rightarrow> (lidx a b i, a, b))"

definition wv :: "nat \<Rightarrow> nat \<times> nat \<times> nat \<Rightarrow> real" where
  "wv j t = (case t of (a, b, i) \<Rightarrow> wval j a b i)"

section \<open>Properties\<close>

lemma exp_i_cis: "exp_i theta mi = cis (mi * theta)"
  by (simp add: exp_i_def cis_conv_exp Complex_eq mult.commute)

lemma range2_single: "range2 0 1 = [0]"
  by (simp add: range2_def)

lemma small_d_weight_0: "small_d_weight 0 (0, 0, 0) = 1"
  by (simp add: small_d_weight_def range2_single weight_tmp_def f_def)

text \<open>
  C9.  For spin label 0 and every Euler angle triple, the matrix returned for an event is
  the 1x1 matrix whose single entry is exactly 1.
\<close>

theorem D_matrix_conj_spin0: "D_matrix_conj alpha beta gamma 0 = [[1]]"
  by (simp add: D_matrix_conj_def D_matrix_conj_entry_def exp_i_cis m_arange_def
      small_d_matrix_def small_d_weight_0)

text \<open>
  C7.  \<^verbatim>\<open>Getp\<close> is a total function (it has no failing branch), and for \<open>M_0 > 0\<close>
  its value is 0 when the product of the four factors is negative and the square root of
  the product divided by \<open>2 * M_0\<close> otherwise.
\<close>

theorem Getp_masked:
  assumes "0 < M_0"
  shows "Getp M_0 M_1 M_2 =
     (let p = (M_0 - (M_1 + M_2)) * (M_0 + (M_1 + M_2)) * (M_0 - (M_1 - M_2)) * (M_0 + (M_1 - M_2))
      in if p < 0 then 0 else sqrt p / (2 * M_0))"
  by (simp add: Getp_def Let_def)

theorem Getp_masked_witness:
  "(0::real) < 1 \<and> Getp 1 1 1 = 0 \<and> (0::real) < 5 \<and> Getp 5 3 0 = sqrt 256 / 10"
  using Getp_masked [of 1 1 1] Getp_masked [of 5 3 0] by (simp add: Let_def)

lemma bind_err_Inl: "bind_err (Inl e) k = Inl e"
  by (simp add: bind_err_def)

lemma bind_err_Inr: "bind_err (Inr v) k = k v"
  by (simp add: bind_err_def)

lemma get_relative_momentum_body_KeyError:
  assumes "2 \<le> length (outs d)"
  shows "get_relative_momentum_body data Map.empty d = Inl KeyError"
proof -
  have l0: "list_getitem (outs d) 0 = Inr (outs d ! 0)"
    and l1: "list_getitem (outs d) 1 = Inr (outs d ! 1)"
    using assms by (auto simp: list_getitem_def)
  have e: "getitem (Map.empty :: q_record) ''decay'' = Inl KeyError"
    by (simp add: getitem_def)
  show ?thesis
    unfolding get_relative_momentum_body_def l0 l1 e Let_def
    by (auto simp: bind_err_def getitem_def split: sum.split option.split)
qed

text \<open>
  C10.  For every data record and every non-empty decay chain, \<^verbatim>\<open>get_relative_momentum\<close>
  raises KeyError and returns nothing.  A decay of the data model is a two- or three-body
  vertex, so \<^verbatim>\<open>outs[0]\<close> and \<^verbatim>\<open>outs[1]\<close> of the first decay exist.
\<close>

theorem get_relative_momentum_KeyError:
  assumes "decay_chain \<noteq> []" and "2 \<le> length (outs (hd decay_chain))"
  shows "get_relative_momentum data decay_chain = Inl KeyError"
proof (cases decay_chain)
  case Nil
  with assms show ?thesis by simp
next
  case (Cons d ds)
  with assms have "get_relative_momentum_body data Map.empty d = Inl KeyError"
    by (simp add: get_relative_momentum_body_KeyError)
  with Cons show ?thesis
    by (simp add: get_relative_momentum_def bind_err_Inl)
qed

theorem get_relative_momentum_KeyError_witness:
  "[\<lparr>core = ''A'', outs = [''B'', ''C'']\<rparr>] \<noteq> []
   \<and> 2 \<le> length (outs (hd [\<lparr>core = ''A'', outs = [''B'', ''C'']\<rparr>]))
   \<and> get_relative_momentum
        [''A'' \<mapsto> [''m'' \<mapsto> 5], ''B'' \<mapsto> [''m'' \<mapsto> 3], ''C'' \<mapsto> [''m'' \<mapsto> 0]]
        [\<lparr>core = ''A'', outs = [''B'', ''C'']\<rparr>] = Inl KeyError"
  using get_relative_momentum_KeyError
    [of "[\<lparr>core = ''A'', outs = [''B'', ''C'']\<rparr>]"
        "[''A'' \<mapsto> [''m'' \<mapsto> 5], ''B'' \<mapsto> [''m'' \<mapsto> 3], ''C'' \<mapsto> [''m'' \<mapsto> 0]]"]
  by simp

subsection \<open>The phases of the D-matrix\<close>

lemma range2_m1: "range2 (- 1) 2 = [- 1, 1]"
  by (simp add: range2_def upt_rec)

lemma small_d_weight_1_00: "small_d_weight (Suc 0) (0, 0, 0) = 1"
  apply (simp add: small_d_weight_def range2_m1)
  apply (simp add: range2_def weight_tmp_def f_def)
  done

lemma small_d_matrix_1_00: "small_d_matrix 0 (Suc 0) 0 0 = 1"
  by (simp add: small_d_matrix_def small_d_weight_1_00)

lemma cis_minus_pi: "cis (- pi) = - 1"
  by (simp add: complex_eq_iff)

text \<open>The entries of the array \<^verbatim>\<open>m\<close> are twice the magnetic quantum numbers.\<close>

lemma D_matrix_conj_entry_doubled:
  "D_matrix_conj_entry alpha beta gamma j a b =
     cis (2 * magnetic j a * alpha) * complex_of_real (small_d_matrix beta j a b)
       * cis (2 * magnetic j b * gamma)"
  by (simp add: D_matrix_conj_entry_def exp_i_cis m_arange_def magnetic_def algebra_simps)

text \<open>
  C1.  The claim is that \<^verbatim>\<open>D_matrix_conj\<close> has the entries
  \<open>exp(i m1 alpha) * d(beta) * exp(i m2 gamma)\<close> of the conjugate canonical D-matrix.  At
  spin 1/2 (label 1), \<open>alpha = pi\<close>, \<open>beta = gamma = 0\<close>, the entry of row and column
  \<open>m = -1/2\<close> computed by the code is \<open>-1\<close>, while the canonical entry is \<open>-i\<close>.
\<close>

theorem D_matrix_conj_half_spin_phase:
  "D_matrix_conj_entry pi 0 0 1 0 0 = - 1 \<and> D_conj_canonical pi 0 0 1 0 0 = - \<i>"
  by (simp add: cis_minus_pi D_matrix_conj_entry_def D_conj_canonical_def exp_i_cis m_arange_def
      magnetic_def small_d_matrix_1_00 cis_minus_pi_half)

subsection \<open>Spin utilities\<close>

lemma py_round_near: "\<bar>real_of_int (py_round x) - x\<bar> \<le> 1 / 2"
  unfolding py_round_def Let_def by (auto; linarith)

lemma py_round_of_int: "py_round (of_int k) = k"
  by (simp add: py_round_def)

text \<open>
  C6, as the code has it.  No primitive raises InvalidSpinError.  \<^verbatim>\<open>_half2\<close> returns
  an integer within 1/2 of \<open>2 s\<close> for every real \<open>s\<close>, which is \<open>2 s\<close> itself when \<open>s\<close> is a
  multiple of 1/2; \<^verbatim>\<open>_srange\<close> returns a sequence whose length is that rounded value
  plus one (none when that is negative).  \<^verbatim>\<open>CGlrs\<close> returns an array with the rounded
  sizes of its three spins when none of them is negative, and fails with numpy's
  \<^verbatim>\<open>ValueError\<close> when one is; whether a spin is a multiple of 1/2 plays no part.
\<close>

theorem spin_utilities_coerce:
  "\<bar>real_of_int (half2 s) - 2 * s\<bar> \<le> 1 / 2
   \<and> half2 (real_of_int k / 2) = k
   \<and> length (srange s) = nat (half2 s + 1)
   \<and> (0 \<le> half2 l + 1 \<and> 0 \<le> half2 r + 1 \<and> 0 \<le> half2 s + 1 \<longrightarrow>
        (\<exists>A. CGlrs CG l r s = Inr A \<and> length A = nat (half2 l + 1)
           \<and> (\<forall>B \<in> set A. length B = nat (half2 r + 1)
                 \<and> (\<forall>C \<in> set B. length C = nat (half2 s + 1)))))
   \<and> (half2 l + 1 < 0 \<or> half2 r + 1 < 0 \<or> half2 s + 1 < 0 \<longrightarrow>
        CGlrs CG l r s = Inl ValueError)"
proof -
  have "\<bar>real_of_int (half2 s) - 2 * s\<bar> \<le> 1 / 2"
    using py_round_near [of "s * 2"] by (simp add: half2_def mult.commute)
  moreover have "half2 (real_of_int k / 2) = k"
    by (simp add: half2_def py_round_of_int)
  moreover have "length (srange s) = nat (half2 s + 1)"
    by (simp add: srange_def size_spin_def)
  moreover have "\<exists>A. CGlrs CG l r s = Inr A \<and> length A = nat (half2 l + 1)
           \<and> (\<forall>B \<in> set A. length B = nat (half2 r + 1)
                 \<and> (\<forall>C \<in> set B. length C = nat (half2 s + 1)))"
    if "0 \<le> half2 l + 1 \<and> 0 \<le> half2 r + 1 \<and> 0 \<le> half2 s + 1"
    using that by (auto simp: CGlrs_def size_spin_def srange_def)
  moreover have "CGlrs CG l r s = Inl ValueError"
    if "half2 l + 1 < 0 \<or> half2 r + 1 < 0 \<or> half2 s + 1 < 0"
    using that by (auto simp: CGlrs_def size_spin_def)
  ultimately show ?thesis by blast
qed

theorem spin_utilities_coerce_witness:
  "(0 \<le> half2 (3 / 10) + 1 \<and> 0 \<le> half2 0 + 1 \<and> 0 \<le> half2 (1 / 2) + 1)
   \<and> (\<exists>A. CGlrs (\<lambda>j1 m1 j2 m2 j3 m3. 0) (3 / 10) 0 (1 / 2) = Inr A \<and> length A = 2
         \<and> (\<forall>B \<in> set A. length B = 1 \<and> (\<forall>C \<in> set B. length C = 2)))
   \<and> half2 (- 1) + 1 < 0
   \<and> CGlrs (\<lambda>j1 m1 j2 m2 j3 m3. 0) (- 1) 0 (1 / 2) = Inl ValueError"
proof -
  have h: "half2 (3 / 10) = 1" "half2 0 = 0" "half2 (1 / 2) = 1" "half2 (- 1) = - 2"
    by (simp_all add: half2_def py_round_def Let_def)
  show ?thesis
    using spin_utilities_coerce [of "1 / 2" 0 "3 / 10" 0 "\<lambda>j1 m1 j2 m2 j3 m3. 0"]
      spin_utilities_coerce [of "1 / 2" 0 "- 1" 0 "\<lambda>j1 m1 j2 m2 j3 m3. 0"]
    by (simp add: h)
qed

text \<open>
  C6, as the claim states it, fails at \<open>s = 3/10\<close>, which is not a multiple of 1/2: the
  utilities return values, the spin is taken as 1/2.
\<close>

theorem half2_coerces_counterexample:
  "2 * (3 / 10 :: real) \<notin> \<int> \<and> half2 (3 / 10) = 1 \<and> size_spin (3 / 10) = 2
   \<and> srange (3 / 10) = [- (3 / 10), 7 / 10]"
proof -
  have "frac (3 / 5 :: real) \<noteq> 0" by (simp add: frac_def)
  then have "(3 / 5 :: real) \<notin> \<int>" by (simp add: frac_eq_0_iff)
  moreover have h: "half2 (3 / 10) = 1" by (simp add: half2_def py_round_def Let_def)
  moreover have "srange (3 / 10) = [- (3 / 10), 7 / 10]"
    by (simp add: srange_def size_spin_def h upt_rec)
  ultimately show ?thesis by (simp add: size_spin_def)
qed

subsection \<open>Zero transverse momentum\<close>

lemma epsilon_pos: "0 < epsilon"
  by (simp add: epsilon_def)

text \<open>
  C3, as the claim states it, fails in the massive branch: the momentum \<open>(5, 0, 0, -3)\<close> has
  zero transverse momentum and the derived polar angle is \<open>pi\<close>.
\<close>

theorem LorentzInvSC_m_nzero_polar_counterexample:
  "p1 (LorentzVector 5 0 0 (- 3)) = 0 \<and> p2 (LorentzVector 5 0 0 (- 3)) = 0
   \<and> Theta_of (LorentzInvSC_m_nzero_angles (LorentzVector 5 0 0 (- 3))) = pi
   \<and> Theta_of (LorentzInvSC_m_nzero_angles (LorentzVector 5 0 0 (- 3))) \<noteq> 0"
proof -
  have s: "sqrt 16 = 4" by (rule real_sqrt_unique) simp_all
  have s2: "sqrt (9 / 16) = 3 / 4" by (rule real_sqrt_unique) (simp_all add: power2_eq_square)
  have e: "\<not> 3 < epsilon * 4" by (simp add: epsilon_def)
  have "Theta_of (LorentzInvSC_m_nzero_angles (LorentzVector 5 0 0 (- 3))) = pi"
    by (simp add: Theta_of_def LorentzInvSC_m_nzero_angles_def inv_mass2_def Let_def scale_def
        s e power2_eq_square s2 epsilon_pos)
  then show ?thesis by simp
qed

lemma nzero_angles_on_axis:
  assumes "p1 p = 0" and "p2 p = 0" and pos: "0 < inv_mass2 p"
  shows "Phi_of (LorentzInvSC_m_nzero_angles p) = 0"
    and "\<bar>p3 p / sqrt (inv_mass2 p)\<bar> < epsilon \<Longrightarrow> Theta_of (LorentzInvSC_m_nzero_angles p) = 0"
proof -
  show "Phi_of (LorentzInvSC_m_nzero_angles p) = 0"
    using assms(1,2) epsilon_pos
    by (simp add: Phi_of_def LorentzInvSC_m_nzero_angles_def Let_def scale_def)
  show "Theta_of (LorentzInvSC_m_nzero_angles p) = 0" if "\<bar>p3 p / sqrt (inv_mass2 p)\<bar> < epsilon"
    using assms(1,2) epsilon_pos that
    by (simp add: Theta_of_def LorentzInvSC_m_nzero_angles_def Let_def scale_def)
qed

text \<open>
  C3, as the code has it.  For a four-momentum with zero transverse momentum: in the
  massless branch (time component not zero) the polar and the azimuthal angle are 0; in
  the massive branch (positive invariant mass squared) the azimuthal angle is 0, and the
  polar angle is 0 where the third space component is below \<open>epsilon\<close> as well (in units of
  the mass), which is the mask \<^verbatim>\<open>cut1\<close> of the code.  Nothing is stated of the polar
  angle of the massive branch outside that mask.
\<close>

theorem zero_transverse_momentum_angles:
  assumes "p1 p = 0" and "p2 p = 0"
  shows "(p0 p \<noteq> 0 \<longrightarrow>
            Theta_of (LorentzInvSC_m_zero_angles p) = 0 \<and> Phi_of (LorentzInvSC_m_zero_angles p) = 0)
    \<and> (0 < inv_mass2 p \<longrightarrow>
         Phi_of (LorentzInvSC_m_nzero_angles p) = 0
         \<and> (\<bar>p3 p / sqrt (inv_mass2 p)\<bar> < epsilon \<longrightarrow>
              Theta_of (LorentzInvSC_m_nzero_angles p) = 0))"
proof (intro conjI impI)
  show "Theta_of (LorentzInvSC_m_zero_angles p) = 0"
    using assms by (simp add: Theta_of_def LorentzInvSC_m_zero_angles_def Let_def scale_def)
  show "Phi_of (LorentzInvSC_m_zero_angles p) = 0"
    using assms by (simp add: Phi_of_def LorentzInvSC_m_zero_angles_def Let_def scale_def)
qed (use assms nzero_angles_on_axis in auto)

theorem zero_transverse_momentum_angles_witness:
  "p1 (LorentzVector 5 0 0 0) = 0 \<and> p2 (LorentzVector 5 0 0 0) = 0
   \<and> p0 (LorentzVector 5 0 0 0) \<noteq> 0 \<and> 0 < inv_mass2 (LorentzVector 5 0 0 0)
   \<and> \<bar>p3 (LorentzVector 5 0 0 0) / sqrt (inv_mass2 (LorentzVector 5 0 0 0))\<bar> < epsilon
   \<and> Theta_of (LorentzInvSC_m_zero_angles (LorentzVector 5 0 0 0)) = 0
   \<and> Phi_of (LorentzInvSC_m_zero_angles (LorentzVector 5 0 0 0)) = 0
   \<and> Phi_of (LorentzInvSC_m_nzero_angles (LorentzVector 5 0 0 0)) = 0
   \<and> Theta_of (LorentzInvSC_m_nzero_angles (LorentzVector 5 0 0 0)) = 0
   \<and> p0 (LorentzVector 3 0 0 (- 3)) \<noteq> 0
   \<and> Theta_of (LorentzInvSC_m_zero_angles (LorentzVector 3 0 0 (- 3))) = 0
   \<and> Phi_of (LorentzInvSC_m_zero_angles (LorentzVector 3 0 0 (- 3))) = 0"
  using zero_transverse_momentum_angles [of "LorentzVector 5 0 0 0"]
    zero_transverse_momentum_angles [of "LorentzVector 3 0 0 (- 3)"] epsilon_pos
  by (simp add: inv_mass2_def)

subsection \<open>Momentum inference\<close>

lemma collect_p_ok:
  assumes "\<forall>j \<in> set js. momentum_of data j \<noteq> None"
  shows "collect_p data js = Inr (map (the_p data) js)"
  using assms
  by (induction js) (auto simp: bind_err_def getitem_def momentum_of_def the_p_def split: option.splits)

lemma infer_momentum_closed:
  assumes "\<forall>e \<in> set st. \<forall>j \<in> set (snd e). momentum_of data j \<noteq> None"
  shows "infer_momentum data st = Inr (inferred data st)"
  using assms
proof (induction st arbitrary: data)
  case Nil
  show ?case by (simp add: inferred_def fun_eq_iff)
next
  case (Cons e es)
  obtain i js where e: "e = (i, js)" by (cases e)
  show ?case
  proof (cases "data i \<noteq> None")
    case True
    then have b: "infer_momentum_body data e = Inr data"
      by (simp add: infer_momentum_body_def e)
    have "inferred data es = inferred data (e # es)"
      using True by (auto simp: inferred_def fun_eq_iff e)
    with Cons b show ?thesis by (simp add: bind_err_def)
  next
    case False
    define data1 where "data1 = data(i \<mapsto> [''p'' \<mapsto> sum_list (map (the_p data) js)])"
    have js: "\<forall>j \<in> set js. momentum_of data j \<noteq> None" using Cons.prems e by simp
    have b: "infer_momentum_body data e = Inr data1"
      using False by (simp add: infer_momentum_body_def e collect_p_ok [OF js] bind_err_def data1_def)
    have keep: "momentum_of data j \<noteq> None \<Longrightarrow> the_p data1 j = the_p data j \<and> momentum_of data1 j \<noteq> None" for j
      using False by (auto simp: data1_def the_p_def momentum_of_def)
    have pre: "\<forall>e \<in> set es. \<forall>j \<in> set (snd e). momentum_of data1 j \<noteq> None"
      using Cons.prems keep by auto
    have "inferred data1 es x = inferred data (e # es) x" for x
    proof (cases "x = i")
      case True
      then show ?thesis using False by (simp add: inferred_def data1_def e)
    next
      case ne: False
      show ?thesis
      proof (cases "map_of es x")
        case None
        then show ?thesis using ne by (simp add: inferred_def data1_def e)
      next
        case (Some ks)
        then have "(x, ks) \<in> set es" by (rule map_of_SomeD)
        then have "\<forall>j \<in> set ks. momentum_of data j \<noteq> None" using Cons.prems by fastforce
        then have "sum_list (map (the_p data1) ks) = sum_list (map (the_p data) ks)"
          using keep by (intro arg_cong [where f = sum_list] map_cong) auto
        then show ?thesis using ne Some by (simp add: inferred_def data1_def e)
      qed
    qed
    then have "inferred data1 es = inferred data (e # es)" by (simp add: fun_eq_iff)
    with Cons.IH [OF pre] b show ?thesis by (simp add: bind_err_def)
  qed
qed

lemma sum_list_mset_cong:
  fixes g :: "'a \<Rightarrow> 'b::comm_monoid_add"
  assumes "mset xs = mset ys"
  shows "sum_list (map g xs) = sum_list (map g ys)"
proof -
  have "sum_list (map g xs) = sum_mset (image_mset g (mset xs))"
    by (metis mset_map sum_mset_sum_list)
  also have "\<dots> = sum_mset (image_mset g (mset ys))" by (simp add: assms)
  also have "\<dots> = sum_list (map g ys)" by (metis mset_map sum_mset_sum_list)
  finally show ?thesis .
qed

lemma sum_list_concat_map:
  fixes g :: "'a \<Rightarrow> 'b::comm_monoid_add"
  shows "sum_list (map g (concat (map h xs))) = (\<Sum>x\<leftarrow>xs. sum_list (map g (h x)))"
  by (induction xs) simp_all

lemma mset_concat_map: "mset (concat (map h xs)) = (\<Sum>x\<leftarrow>xs. mset (h x))"
  by (induction xs) simp_all

text \<open>
  C8, as the code has it.  Let the table list the outer particles below each particle, let
  the record hold a momentum for every outer particle of the chain, and let every entry
  that the record already has for the core of a decay hold the sum of the momenta of the
  outer particles below that core.  Then \<^verbatim>\<open>infer_momentum\<close> returns a record in
  which every particle of the chain has a momentum, the momentum of the core of every decay
  is the sum of the momenta of its outgoing particles, and every entry of the input is
  unchanged.
\<close>

theorem infer_momentum_conserves:
  assumes tab: "leaf_table chain st"
    and sums: "preset_sums chain st data"
  shows "\<exists>data'. infer_momentum data st = Inr data'
      \<and> (\<forall>d \<in> set chain. momentum_of data' (core d) \<noteq> None
            \<and> (\<forall>x \<in> set (outs d). momentum_of data' x \<noteq> None)
            \<and> the_p data' (core d) = (\<Sum>x\<leftarrow>outs d. the_p data' x))
      \<and> (\<forall>x. data x \<noteq> None \<longrightarrow> data' x = data x)"
proof -
  let ?D = "inferred data st"
  let ?leaves = "\<lambda>x. sum_list (map (the_p data) (table_of st x))"
  have outs_in: "\<forall>x \<in> set (outer chain). momentum_of data x \<noteq> None"
    and preset: "\<forall>d \<in> set chain. data (core d) \<noteq> None \<longrightarrow>
        momentum_of data (core d) = Some (?leaves (core d))"
    using sums by (simp_all add: preset_sums_def)
  have pre: "\<forall>e \<in> set st. \<forall>j \<in> set (snd e). momentum_of data j \<noteq> None"
    using tab outs_in unfolding leaf_table_def by blast
  have run: "infer_momentum data st = Inr ?D" by (rule infer_momentum_closed [OF pre])
  have keys: "x \<in> fst ` set st \<Longrightarrow> \<exists>js. map_of st x = Some js" for x
    by (metis map_of_eq_None_iff not_Some_eq)
  have core_val: "the_p ?D (core d) = ?leaves (core d) \<and> momentum_of ?D (core d) \<noteq> None"
    if d: "d \<in> set chain" for d
  proof (cases "data (core d) = None")
    case True
    have "core d \<in> fst ` set st" using tab d unfolding leaf_table_def by blast
    then obtain js where "map_of st (core d) = Some js" using keys by blast
    with True show ?thesis by (simp add: inferred_def the_p_def momentum_of_def table_of_def)
  next
    case False
    then have "momentum_of data (core d) = Some (?leaves (core d))" using preset d by blast
    moreover have "?D (core d) = data (core d)" using False by (simp add: inferred_def)
    ultimately show ?thesis by (simp add: the_p_def momentum_of_def)
  qed
  have val: "the_p ?D x = ?leaves x \<and> momentum_of ?D x \<noteq> None"
    if "x \<in> set (outs d)" "d \<in> set chain" for x d
  proof (cases "x \<in> core ` set chain")
    case True
    then obtain d' where "d' \<in> set chain" "x = core d'" by auto
    then show ?thesis using core_val by blast
  next
    case False
    then have o: "x \<in> set (outer chain)" using that by (auto simp: outer_def)
    then have "map_of st x = Some [x]" "momentum_of data x \<noteq> None"
      using tab outs_in by (auto simp: leaf_table_def)
    then show ?thesis
      by (auto simp: inferred_def the_p_def momentum_of_def table_of_def split: option.splits)
  qed
  have cons: "the_p ?D (core d) = (\<Sum>x\<leftarrow>outs d. the_p ?D x)"
    if d: "d \<in> set chain" for d
  proof -
    have "mset (table_of st (core d)) = (\<Sum>x\<leftarrow>outs d. mset (table_of st x))"
      using tab d unfolding leaf_table_def by blast
    then have "mset (table_of st (core d)) = mset (concat (map (table_of st) (outs d)))"
      by (simp add: mset_concat_map)
    then have "?leaves (core d) = sum_list (map (the_p data) (concat (map (table_of st) (outs d))))"
      by (rule sum_list_mset_cong)
    also have "\<dots> = (\<Sum>x\<leftarrow>outs d. ?leaves x)"
      by (rule sum_list_concat_map)
    also have "\<dots> = (\<Sum>x\<leftarrow>outs d. the_p ?D x)"
      using val d by (intro arg_cong [where f = sum_list] map_cong) auto
    finally show ?thesis using core_val [OF d] by simp
  qed
  show ?thesis
    using run cons core_val val by (intro exI [of _ ?D]) (auto simp: inferred_def)
qed

theorem infer_momentum_conserves_witness:
  "leaf_table chain_BC table_BC
   \<and> preset_sums chain_BC table_BC data_ABCD
   \<and> (\<exists>data'. infer_momentum data_ABCD table_BC = Inr data'
         \<and> the_p data' ''BC'' = LorentzVector 3 1 0 1
         \<and> the_p data' ''A'' = the_p data' ''BC'' + the_p data' ''D''
         \<and> data' ''A'' = data_ABCD ''A'')"
proof -
  have o: "outer chain_BC = [''D'', ''B'', ''C'']" by (simp add: outer_def)
  have t: "leaf_table chain_BC table_BC" by (simp add: leaf_table_def o table_of_def)
  have p: "preset_sums chain_BC table_BC data_ABCD"
    by (simp add: preset_sums_def o momentum_of_def the_p_def table_of_def plus_lorentz_def
        zero_lorentz_def)
  obtain data' where r: "infer_momentum data_ABCD table_BC = Inr data'"
    and s: "\<forall>d \<in> set chain_BC. the_p data' (core d) = (\<Sum>x\<leftarrow>outs d. the_p data' x)"
    and k: "\<forall>x. data_ABCD x \<noteq> None \<longrightarrow> data' x = data_ABCD x"
    using infer_momentum_conserves [OF t p] by blast
  have b: "the_p data' ''B'' = LorentzVector 1 0 0 1" "the_p data' ''C'' = LorentzVector 2 1 0 0"
    using k by (simp_all add: the_p_def momentum_of_def)
  have a: "the_p data' ''BC'' = the_p data' ''B'' + the_p data' ''C''"
    "the_p data' ''A'' = the_p data' ''BC'' + the_p data' ''D''"
    using s by simp_all
  have "the_p data' ''BC'' = LorentzVector 3 1 0 1"
    by (simp add: a(1) b plus_lorentz_def)
  moreover have "data' ''A'' = data_ABCD ''A''" using k by simp
  ultimately show ?thesis using t p r a(2) by simp
qed

text \<open>
  C8, as the claim states it, fails when the record already holds an entry for an inner
  node: the entry is kept (\<^verbatim>\<open>if i in data: continue\<close>), whatever its momentum.  For
  \<open>A \<rightarrow> B + C\<close> the record below contains both outer particles, the run returns it
  unchanged, and the momentum of \<open>A\<close> is not the sum of those of \<open>B\<close> and \<open>C\<close>.
\<close>

theorem infer_momentum_keeps_inner_counterexample:
  "leaf_table [\<lparr>core = ''A'', outs = [''B'', ''C'']\<rparr>] [(''B'', [''B'']), (''C'', [''C'']), (''A'', [''B'', ''C''])]
   \<and> infer_momentum
        [''B'' \<mapsto> [''p'' \<mapsto> LorentzVector 1 0 0 0], ''C'' \<mapsto> [''p'' \<mapsto> LorentzVector 1 0 0 0],
         ''A'' \<mapsto> [''p'' \<mapsto> LorentzVector 5 0 0 0]]
        [(''B'', [''B'']), (''C'', [''C'']), (''A'', [''B'', ''C''])]
      = Inr [''B'' \<mapsto> [''p'' \<mapsto> LorentzVector 1 0 0 0], ''C'' \<mapsto> [''p'' \<mapsto> LorentzVector 1 0 0 0],
             ''A'' \<mapsto> [''p'' \<mapsto> LorentzVector 5 0 0 0]]
   \<and> LorentzVector 5 0 0 0 \<noteq> LorentzVector 1 0 0 0 + LorentzVector 1 0 0 0"
  by (simp add: leaf_table_def outer_def table_of_def infer_momentum_body_def bind_err_def
      plus_lorentz_def)

subsection \<open>Reference chains\<close>

lemma chain_at_None: "chain_at s p = None \<longleftrightarrow> s p = None"
  by (simp add: chain_at_def)

lemma chain_at_upd: "chain_at (s(i \<mapsto> (c, d))) p = (if p = i then Some c else chain_at s p)"
  by (simp add: chain_at_def)

lemma ref_top_outs_at:
  "chain_at (ref_top_outs G c d os s) p =
     (if s p = None \<and> p \<in> set G \<and> p \<in> set os then Some c else chain_at s p)"
  unfolding ref_top_outs_def
proof (induction os arbitrary: s)
  case Nil
  show ?case by simp
next
  case (Cons j os)
  show ?case
    by (simp add: Cons [unfolded chain_at_None [symmetric]] chain_at_upd chain_at_None [symmetric])
qed

lemma ref_top_decays_chain:
  "chain_at (ref_top_decays gtop G c ds s) p =
     (if s p = None \<and> p \<in> set G \<and> top_daughter gtop p ds then Some c else chain_at s p)"
  unfolding ref_top_decays_def
proof (induction ds arbitrary: s)
  case Nil
  show ?case by (simp add: top_daughter_def)
next
  case (Cons d ds)
  have td: "top_daughter gtop p (d # ds) \<longleftrightarrow> (core d = gtop \<and> p \<in> set (outs d)) \<or> top_daughter gtop p ds"
    by (auto simp: top_daughter_def)
  show ?case
    by (simp add: Cons [unfolded chain_at_None [symmetric]] ref_top_outs_at td chain_at_None [symmetric])
qed

lemma ref_top_chain:
  "chain_at (ref_top gtop G cs s) p =
     (if s p = None \<and> p \<in> set G then find (top_daughter gtop p) cs else chain_at s p)"
  unfolding ref_top_def
proof (induction cs arbitrary: s)
  case Nil
  show ?case by (simp add: chain_at_None)
next
  case (Cons c cs)
  show ?case
    by (simp add: Cons [unfolded chain_at_None [symmetric]] ref_top_decays_chain chain_at_None [symmetric])
qed

lemma fold_set_at:
  "chain_at (fold (\<lambda>j s. if i = j then s(i \<mapsto> (c, d)) else s) os s) p =
     (if p = i \<and> i \<in> set os then Some c else chain_at s p)"
  by (induction os arbitrary: s) (auto simp: chain_at_upd)

lemma fold_decays_at:
  "chain_at (fold (\<lambda>d. fold (\<lambda>j s. if i = j then s(i \<mapsto> (c, d)) else s) (outs d)) ds s) p =
     (if p = i \<and> contains i ds then Some c else chain_at s p)"
proof (induction ds arbitrary: s)
  case Nil
  show ?case by (simp add: contains_def)
next
  case (Cons d ds)
  have ct: "contains i (d # ds) \<longleftrightarrow> i \<in> set (outs d) \<or> contains i ds"
    by (auto simp: contains_def)
  show ?case by (auto simp: Cons fold_set_at ct)
qed

lemma ref_first_inner_chain:
  "chain_at (ref_first_inner c i s) p =
     (if p = i \<and> contains i c then Some c else chain_at s p)"
  unfolding ref_first_inner_def by (rule fold_decays_at)

lemma ref_first_run:
  "\<exists>s'. ref_first (c # cs) is s = Inr s' \<and>
     (\<forall>p. chain_at s' p =
        (if s p = None \<and> p \<in> set is \<and> contains p c then Some c else chain_at s p))"
proof (induction "is" arbitrary: s)
  case Nil
  show ?case by simp
next
  case (Cons i "is")
  define s1 where "s1 = (if s i = None then ref_first_inner c i s else s)"
  have run: "ref_first (c # cs) (i # is) s = ref_first (c # cs) is s1"
    by (simp add: s1_def)
  obtain s' where s': "ref_first (c # cs) is s1 = Inr s'"
    and eq: "\<And>p. chain_at s' p =
        (if chain_at s1 p = None \<and> p \<in> set is \<and> contains p c then Some c else chain_at s1 p)"
    using Cons [of s1] unfolding chain_at_None by blast
  have "chain_at s' p =
        (if chain_at s p = None \<and> p \<in> set (i # is) \<and> contains p c then Some c else chain_at s p)" for p
    unfolding eq [of p] s1_def
    by (auto simp: ref_first_inner_chain chain_at_None [symmetric])
  with s' show ?case unfolding run chain_at_None by blast
qed

lemma align_outs_run:
  assumes "\<forall>p \<in> set G. sx p \<noteq> None"
  shows "\<exists>al'. align_outs G sx c d os al = Inr al' \<and>
     (\<forall>c' d' i. al' (c', d', i) =
        (if c' = c \<and> d' = d \<and> i \<in> set os \<and> i \<in> set G \<and> (\<forall>r. sx i = Some r \<longrightarrow> c \<noteq> fst r)
         then sx i else al (c', d', i)))"
proof (induction os arbitrary: al)
  case Nil
  show ?case by simp
next
  case (Cons j os)
  define al1 where "al1 =
    (if j \<in> set G \<and> (\<forall>r. sx j = Some r \<longrightarrow> c \<noteq> fst r) then al((c, d, j) := sx j) else al)"
  have run: "align_outs G sx c d (j # os) al = align_outs G sx c d os al1"
  proof (cases "j \<in> set G")
    case False
    then show ?thesis by (simp add: al1_def)
  next
    case True
    then obtain r where "sx j = Some r" using assms by auto
    with True show ?thesis by (simp add: al1_def getitem_def bind_err_def)
  qed
  obtain al' where al': "align_outs G sx c d os al1 = Inr al'"
    and eq: "\<And>c' d' i. al' (c', d', i) =
        (if c' = c \<and> d' = d \<and> i \<in> set os \<and> i \<in> set G \<and> (\<forall>r. sx i = Some r \<longrightarrow> c \<noteq> fst r)
         then sx i else al1 (c', d', i))"
    using Cons [of al1] by blast
  have "al' (c', d', i) =
        (if c' = c \<and> d' = d \<and> i \<in> set (j # os) \<and> i \<in> set G \<and> (\<forall>r. sx i = Some r \<longrightarrow> c \<noteq> fst r)
         then sx i else al (c', d', i))" for c' d' i
    unfolding eq [of c' d' i] al1_def by auto
  with al' show ?case unfolding run by blast
qed

lemma align_decays_run:
  assumes "\<forall>p \<in> set G. sx p \<noteq> None"
  shows "\<exists>al'. align_decays G sx c ds al = Inr al' \<and>
     (\<forall>c' d' i. al' (c', d', i) =
        (if c' = c \<and> d' \<in> set ds \<and> written G sx (c', d', i) then sx i else al (c', d', i)))"
proof (induction ds arbitrary: al)
  case Nil
  show ?case by simp
next
  case (Cons d ds)
  obtain al1 where al1: "align_outs G sx c d (outs d) al = Inr al1"
    "\<forall>c' d' i. al1 (c', d', i) =
        (if c' = c \<and> d' = d \<and> i \<in> set (outs d) \<and> i \<in> set G \<and> (\<forall>r. sx i = Some r \<longrightarrow> c \<noteq> fst r)
         then sx i else al (c', d', i))"
    using align_outs_run [OF assms, of c d "outs d" al] by blast
  obtain al2 where al2: "align_decays G sx c ds al1 = Inr al2"
    "\<forall>c' d' i. al2 (c', d', i) =
        (if c' = c \<and> d' \<in> set ds \<and> written G sx (c', d', i) then sx i else al1 (c', d', i))"
    using Cons [of al1] by blast
  have "al2 (c', d', i) =
        (if c' = c \<and> d' \<in> set (d # ds) \<and> written G sx (c', d', i) then sx i else al (c', d', i))" for c' d' i
    using al1(2) [rule_format, of c' d' i] al2(2) [rule_format, of c' d' i]
    by (auto simp: written_def)
  with al1(1) al2(1) show ?case by (simp add: bind_err_def)
qed

lemma align_chains_run:
  assumes "\<forall>p \<in> set G. sx p \<noteq> None"
  shows "\<exists>al'. align_chains G sx cs al = Inr al' \<and>
     (\<forall>c' d' i. al' (c', d', i) =
        (if c' \<in> set cs \<and> d' \<in> set c' \<and> written G sx (c', d', i) then sx i else al (c', d', i)))"
proof (induction cs arbitrary: al)
  case Nil
  show ?case by simp
next
  case (Cons c cs)
  obtain al1 where al1: "align_decays G sx c c al = Inr al1"
    "\<forall>c' d' i. al1 (c', d', i) =
        (if c' = c \<and> d' \<in> set c \<and> written G sx (c', d', i) then sx i else al (c', d', i))"
    using align_decays_run [OF assms, of c c al] by blast
  obtain al2 where al2: "align_chains G sx cs al1 = Inr al2"
    "\<forall>c' d' i. al2 (c', d', i) =
        (if c' \<in> set cs \<and> d' \<in> set c' \<and> written G sx (c', d', i) then sx i else al1 (c', d', i))"
    using Cons [of al1] by blast
  have "al2 (c', d', i) =
        (if c' \<in> set (c # cs) \<and> d' \<in> set c' \<and> written G sx (c', d', i) then sx i else al (c', d', i))" for c' d' i
    using al1(2) [rule_format, of c' d' i] al2(2) [rule_format, of c' d' i]
    by auto
  with al1(1) al2(1) show ?case by (simp add: bind_err_def)
qed


text \<open>
  C4.  In a decay group (at least one chain, every chain containing every final-state
  particle), for every final-state particle \<open>p\<close> the chain of the reference chosen by the
  code is the one the rule names, and among the chains of the group an
  \<^verbatim>\<open>aligned_angle\<close> entry for \<open>p\<close> is written in exactly those that are not the reference
  chain of \<open>p\<close>.
\<close>

theorem reference_chain_selection:
  assumes grp: "group_chains G cs"
  shows "\<exists>set_x al. cal_angle_from_particle_align gtop G cs = Inr (set_x, al) \<and>
     (\<forall>p \<in> set G. chain_at set_x p = reference_chain gtop cs p
        \<and> (\<forall>c \<in> set cs. (\<exists>d. al (c, d, p) \<noteq> None) \<longleftrightarrow> Some c \<noteq> chain_at set_x p))"
proof -
  have ne: "cs \<noteq> []" and inv: "\<forall>c \<in> set cs. \<forall>p \<in> set G. contains p c"
    using grp by (simp_all add: group_chains_def)
  obtain c0 cs' where cs: "cs = c0 # cs'" using ne by (cases cs) auto
  define s0 where "s0 = ref_top gtop G cs Map.empty"
  have s0: "chain_at s0 p = (if p \<in> set G then find (top_daughter gtop p) cs else None)" for p
  proof -
    have "chain_at (Map.empty :: reference) p = None" by (simp add: chain_at_def)
    then show ?thesis unfolding s0_def by (simp add: ref_top_chain)
  qed
  obtain s1 where run1: "ref_first cs G s0 = Inr s1"
    and s1: "\<And>p. chain_at s1 p =
        (if s0 p = None \<and> p \<in> set G \<and> contains p c0 then Some c0 else chain_at s0 p)"
    using ref_first_run [of c0 cs' G s0] unfolding cs by blast
  have ref: "chain_at s1 p = reference_chain gtop cs p" if "p \<in> set G" for p
  proof -
    have c: "contains p c0" using inv that by (simp add: cs)
    show ?thesis
    proof (cases "find (top_daughter gtop p) cs")
      case None
      then have "chain_at s0 p = None" using s0 [of p] by simp
      then have "s0 p = None" by (simp add: chain_at_None)
      then have "chain_at s1 p = Some c0" using s1 [of p] that c by simp
      moreover have "reference_chain gtop cs p = Some c0"
        using None c by (simp add: reference_chain_def cs)
      ultimately show ?thesis by simp
    next
      case (Some c1)
      then have "chain_at s0 p = Some c1" using s0 [of p] that by simp
      moreover from this have "s0 p \<noteq> None" by (auto simp: chain_at_def)
      ultimately have "chain_at s1 p = Some c1" using s1 [of p] by auto
      then show ?thesis using Some by (simp add: reference_chain_def)
    qed
  qed
  have def1: "\<forall>p \<in> set G. s1 p \<noteq> None"
  proof
    fix p assume p: "p \<in> set G"
    have c: "contains p c0" using inv p by (simp add: cs)
    have "chain_at s1 p \<noteq> None"
    proof (cases "s0 p = None")
      case True
      then show ?thesis using s1 [of p] p c by simp
    next
      case False
      then have "chain_at s0 p \<noteq> None" by (simp add: chain_at_None)
      with False show ?thesis using s1 [of p] by simp
    qed
    then show "s1 p \<noteq> None" by (simp add: chain_at_None)
  qed
  obtain al where run2: "align_chains G s1 cs Map.empty = Inr al"
    and al: "\<And>c' d' i. al (c', d', i) =
        (if c' \<in> set cs \<and> d' \<in> set c' \<and> written G s1 (c', d', i) then s1 i else None)"
    using align_chains_run [OF def1, of cs Map.empty] by auto
  have ent: "(\<exists>d. al (c, d, p) \<noteq> None) \<longleftrightarrow> Some c \<noteq> chain_at s1 p"
    if p: "p \<in> set G" and c: "c \<in> set cs" for p c
  proof -
    obtain r where r: "s1 p = Some r" using def1 p by auto
    obtain d where d: "d \<in> set c" "p \<in> set (outs d)"
      using inv p c by (auto simp: contains_def)
    show ?thesis
    proof (cases "c = fst r")
      case True
      have "\<not> written G s1 (c, d', p)" for d'
        using True r by (cases r) (auto simp: written_def)
      then have "al (c, d', p) = None" for d' by (simp add: al)
      then show ?thesis using True r by (simp add: chain_at_def)
    next
      case False
      then have "written G s1 (c, d, p)" using r d p by (cases r) (auto simp: written_def)
      then have "al (c, d, p) \<noteq> None" using r d c by (simp add: al)
      then show ?thesis using False r by (auto simp: chain_at_def)
    qed
  qed
  have "cal_angle_from_particle_align gtop G cs = Inr (s1, al)"
    by (simp add: cal_angle_from_particle_align_def s0_def [symmetric] run1 run2 bind_err_def)
  with ref ent show ?thesis by blast
qed

theorem reference_chain_selection_witness:
  "group_chains [''B'', ''C'', ''D''] [chain_BC, chain_BD, chain_CD]
   \<and> (\<exists>set_x al.
        cal_angle_from_particle_align ''A'' [''B'', ''C'', ''D''] [chain_BC, chain_BD, chain_CD]
          = Inr (set_x, al)
        \<and> chain_at set_x ''B'' = Some chain_CD
        \<and> chain_at set_x ''C'' = Some chain_BD
        \<and> chain_at set_x ''D'' = Some chain_BC
        \<and> (\<exists>d. al (chain_BC, d, ''B'') \<noteq> None)
        \<and> (\<exists>d. al (chain_BD, d, ''B'') \<noteq> None)
        \<and> \<not> (\<exists>d. al (chain_CD, d, ''B'') \<noteq> None))"
proof -
  have grp: "group_chains [''B'', ''C'', ''D''] [chain_BC, chain_BD, chain_CD]"
    by (simp add: group_chains_def contains_def)
  have r: "reference_chain ''A'' [chain_BC, chain_BD, chain_CD] ''B'' = Some chain_CD"
    "reference_chain ''A'' [chain_BC, chain_BD, chain_CD] ''C'' = Some chain_BD"
    "reference_chain ''A'' [chain_BC, chain_BD, chain_CD] ''D'' = Some chain_BC"
    by (simp_all add: reference_chain_def top_daughter_def)
  obtain set_x al where
    run: "cal_angle_from_particle_align ''A'' [''B'', ''C'', ''D''] [chain_BC, chain_BD, chain_CD]
          = Inr (set_x, al)"
    and sel: "\<forall>p \<in> set [''B'', ''C'', ''D''].
        chain_at set_x p = reference_chain ''A'' [chain_BC, chain_BD, chain_CD] p
        \<and> (\<forall>c \<in> set [chain_BC, chain_BD, chain_CD].
              (\<exists>d. al (c, d, p) \<noteq> None) \<longleftrightarrow> Some c \<noteq> chain_at set_x p)"
    using reference_chain_selection [OF grp, of "''A''"] by blast
  have b: "chain_at set_x ''B'' = Some chain_CD" "chain_at set_x ''C'' = Some chain_BD"
    "chain_at set_x ''D'' = Some chain_BC"
    using sel r by simp_all
  have e: "\<forall>c \<in> set [chain_BC, chain_BD, chain_CD].
              (\<exists>d. al (c, d, ''B'') \<noteq> None) \<longleftrightarrow> Some c \<noteq> chain_at set_x ''B''"
    using sel by simp
  have "(\<exists>d. al (chain_BC, d, ''B'') \<noteq> None)" "(\<exists>d. al (chain_BD, d, ''B'') \<noteq> None)"
    "\<not> (\<exists>d. al (chain_CD, d, ''B'') \<noteq> None)"
    using e unfolding b by simp_all
  with grp run b show ?thesis by blast
qed

subsection \<open>The rotation accumulator\<close>

lemma helicity_while_Nil: "helicity_while K P sa [] = Some (Inr (fst sa))"
  by (subst helicity_while.simps) simp

lemma helicity_while_step:
  assumes "ds \<noteq> []" and "pass K P ds sa [] = Inr (sa', extra)"
  shows "helicity_while K P sa ds = helicity_while K P sa' extra"
  using assms by (subst helicity_while.simps) simp

text \<open>
  C2.  The claim is that the operator stored for every outgoing particle is built from the
  particle's own angles, at three-body vertices too.  For the three-body decay
  \<open>A \<rightarrow> B + C + D\<close> at the top (with one x axis returned per direction by
  \<^verbatim>\<open>angle_zx_zzz_getx\<close>), the operator stored for \<open>B\<close> is built from the angles of \<open>D\<close>,
  the last outgoing particle: the three-body block reads the variable \<^verbatim>\<open>ang\<close> that the
  loop before it left behind.
\<close>

theorem three_body_r_matrix_stale_angle:
  assumes len: "length (snd (angle_zx_zzz_getx K bz bx
        [vect K (rest_vector K pA pB), vect K (rest_vector K pA pC), vect K (rest_vector K pA pD)])) = 3"
  shows "\<exists>st. cal_helicity_angle K (data_3 pA pB pC pD) ''A'' chain_3 bz bx = Some (Inr st)
     \<and> st_r_matrix st ''B'' =
         Some (mul K (mul K (Boost_z_from_p K (rest_vector K pA pB))
                 (Rotation_y K (ang_beta (fst (angle_zx_z_getx K bz bx (vect K (rest_vector K pA pD)))))))
                 (Rotation_z K (ang_alpha (fst (angle_zx_z_getx K bz bx (vect K (rest_vector K pA pD)))))))"
proof -
  define P :: rest_data where "P = [\<lparr>core = ''A'', outs = [''B'', ''C'', ''D'']\<rparr> \<mapsto>
      [''B'' \<mapsto> rest_vector K pA pB, ''C'' \<mapsto> rest_vector K pA pC, ''D'' \<mapsto> rest_vector K pA pD]]"
  have rf: "rest_frames K (data_3 pA pB pC pD) chain_3 Map.empty = Inr P"
    by (simp add: bind_err_def getitem_def P_def)
  obtain joint x1 x2 x3 where z: "angle_zx_zzz_getx K bz bx
        [vect K (rest_vector K pA pB), vect K (rest_vector K pA pC), vect K (rest_vector K pA pD)]
        = (joint, [x1, x2, x3])"
    using len
    by (cases "angle_zx_zzz_getx K bz bx
        [vect K (rest_vector K pA pB), vect K (rest_vector K pA pC), vect K (rest_vector K pA pD)]")
       (auto simp: length_Suc_conv numeral_3_eq_3)
  obtain aB xB where aB: "angle_zx_z_getx K bz bx (vect K (rest_vector K pA pB)) = (aB, xB)"
    by (cases "angle_zx_z_getx K bz bx (vect K (rest_vector K pA pB))")
  obtain aC xC where aC: "angle_zx_z_getx K bz bx (vect K (rest_vector K pA pC)) = (aC, xC)"
    by (cases "angle_zx_z_getx K bz bx (vect K (rest_vector K pA pC))")
  obtain aD xD where aD: "angle_zx_z_getx K bz bx (vect K (rest_vector K pA pD)) = (aD, xD)"
    by (cases "angle_zx_z_getx K bz bx (vect K (rest_vector K pA pD))")
  let ?st0 = "\<lparr>st_ret = Map.empty, st_set_x = [''A'' \<mapsto> bx], st_set_z = [''A'' \<mapsto> bz],
              st_r_matrix = (Map.empty :: particle \<rightharpoonup> 'a)\<rparr>"
  obtain sa where ps: "pass K P chain_3 (?st0, None) [] = Inr (sa, [])"
    and rB: "st_r_matrix (fst sa) ''B'' =
         Some (mul K (mul K (Boost_z_from_p K (rest_vector K pA pB)) (Rotation_y K (ang_beta aD)))
                 (Rotation_z K (ang_alpha aD)))"
    by (simp add: P_def process_decay_def three_body_def set_out_def compose_r_def
        bind_err_def getitem_def z aB aC aD Let_def)
  have "helicity_while K P (?st0, None) chain_3 = Some (Inr (fst sa))"
    using helicity_while_step [OF _ ps] by (simp add: helicity_while_Nil)
  then have "cal_helicity_angle K (data_3 pA pB pC pD) ''A'' chain_3 bz bx = Some (Inr (fst sa))"
    unfolding cal_helicity_angle_def rf by simp
  with rB show ?thesis by (simp add: aD)
qed


theorem three_body_r_matrix_stale_angle_witness:
  "length (snd (angle_zx_zzz_getx word_kinematics (0, 0, 1) (1, 0, 0)
        [vect word_kinematics (rest_vector word_kinematics (LorentzVector 9 0 0 0) (LorentzVector 3 1 2 0)),
         vect word_kinematics (rest_vector word_kinematics (LorentzVector 9 0 0 0) (LorentzVector 3 5 6 0)),
         vect word_kinematics (rest_vector word_kinematics (LorentzVector 9 0 0 0) (LorentzVector 3 3 4 0))])) = 3
   \<and> (\<exists>st. cal_helicity_angle word_kinematics
          (data_3 (LorentzVector 9 0 0 0) (LorentzVector 3 1 2 0) (LorentzVector 3 5 6 0) (LorentzVector 3 3 4 0))
          ''A'' chain_3 (0, 0, 1) (1, 0, 0) = Some (Inr st)
        \<and> st_r_matrix st ''B'' = Some [Boost (LorentzVector 3 1 2 0), RotY 4, RotZ 3]
        \<and> claimed_r word_kinematics (0, 0, 1) (1, 0, 0)
              (rest_vector word_kinematics (LorentzVector 9 0 0 0) (LorentzVector 3 1 2 0))
            = [Boost (LorentzVector 3 1 2 0), RotY 2, RotZ 1])"
proof -
  have l: "length (snd (angle_zx_zzz_getx word_kinematics (0, 0, 1) (1, 0, 0)
        [vect word_kinematics (rest_vector word_kinematics (LorentzVector 9 0 0 0) (LorentzVector 3 1 2 0)),
         vect word_kinematics (rest_vector word_kinematics (LorentzVector 9 0 0 0) (LorentzVector 3 5 6 0)),
         vect word_kinematics (rest_vector word_kinematics (LorentzVector 9 0 0 0) (LorentzVector 3 3 4 0))])) = 3"
    by (simp add: word_kinematics_def)
  show ?thesis
    using l three_body_r_matrix_stale_angle [OF l]
    by (auto simp: word_kinematics_def claimed_r_def)
qed

text \<open>
  At two-body vertices the stored operator is the one of the claim: in the chain
  \<open>A \<rightarrow> BC + D\<close>, \<open>BC \<rightarrow> B + C\<close> the operator of \<open>BC\<close> is built from its own angles, and
  the operator of \<open>B\<close> is built from its own angles and multiplied onto that of \<open>BC\<close>.
\<close>

lemma two_body_r_matrix_own_angle:
  "\<exists>st. cal_helicity_angle K
          [''A'' \<mapsto> [''p'' \<mapsto> pA], ''BC'' \<mapsto> [''p'' \<mapsto> pBC], ''D'' \<mapsto> [''p'' \<mapsto> pD],
           ''B'' \<mapsto> [''p'' \<mapsto> pB], ''C'' \<mapsto> [''p'' \<mapsto> pC]]
          ''A'' chain_BC bz bx = Some (Inr st)
     \<and> st_r_matrix st ''BC'' = Some (claimed_r K bz bx (rest_vector K pA pBC))
     \<and> st_r_matrix st ''B'' =
          Some (mul K
            (claimed_r K (vect K (rest_vector K pA pBC))
               (snd (angle_zx_z_getx K bz bx (vect K (rest_vector K pA pBC))))
               (rest_vector K pBC pB))
            (claimed_r K bz bx (rest_vector K pA pBC)))"
proof -
  define data :: momentum_data where "data =
          [''A'' \<mapsto> [''p'' \<mapsto> pA], ''BC'' \<mapsto> [''p'' \<mapsto> pBC], ''D'' \<mapsto> [''p'' \<mapsto> pD],
           ''B'' \<mapsto> [''p'' \<mapsto> pB], ''C'' \<mapsto> [''p'' \<mapsto> pC]]"
  define P :: rest_data where "P =
     [\<lparr>core = ''A'', outs = [''BC'', ''D'']\<rparr> \<mapsto>
        [''BC'' \<mapsto> rest_vector K pA pBC, ''D'' \<mapsto> rest_vector K pA pD],
      \<lparr>core = ''BC'', outs = [''B'', ''C'']\<rparr> \<mapsto>
        [''B'' \<mapsto> rest_vector K pBC pB, ''C'' \<mapsto> rest_vector K pBC pC]]"
  have rf: "rest_frames K data chain_BC Map.empty = Inr P"
    by (simp add: bind_err_def getitem_def P_def data_def)
  obtain aBC xBC where aBC: "angle_zx_z_getx K bz bx (vect K (rest_vector K pA pBC)) = (aBC, xBC)"
    by (cases "angle_zx_z_getx K bz bx (vect K (rest_vector K pA pBC))")
  obtain aD xD where aD: "angle_zx_z_getx K bz bx (vect K (rest_vector K pA pD)) = (aD, xD)"
    by (cases "angle_zx_z_getx K bz bx (vect K (rest_vector K pA pD))")
  obtain aB xB where aB:
    "angle_zx_z_getx K (vect K (rest_vector K pA pBC)) xBC (vect K (rest_vector K pBC pB)) = (aB, xB)"
    by (cases "angle_zx_z_getx K (vect K (rest_vector K pA pBC)) xBC (vect K (rest_vector K pBC pB))")
  obtain aC xC where aC:
    "angle_zx_z_getx K (vect K (rest_vector K pA pBC)) xBC (vect K (rest_vector K pBC pC)) = (aC, xC)"
    by (cases "angle_zx_z_getx K (vect K (rest_vector K pA pBC)) xBC (vect K (rest_vector K pBC pC))")
  let ?st0 = "\<lparr>st_ret = Map.empty, st_set_x = [''A'' \<mapsto> bx], st_set_z = [''A'' \<mapsto> bz],
              st_r_matrix = (Map.empty :: particle \<rightharpoonup> 'a)\<rparr>"
  let ?rBC = "mul K (mul K (Boost_z_from_p K (rest_vector K pA pBC)) (Rotation_y K (ang_beta aBC)))
                 (Rotation_z K (ang_alpha aBC))"
  obtain sa where ps: "pass K P chain_BC (?st0, None) [] = Inr (sa, [])"
    and r1: "st_r_matrix (fst sa) ''BC'' = Some ?rBC"
    and r2: "st_r_matrix (fst sa) ''B'' =
         Some (mul K (mul K (mul K (Boost_z_from_p K (rest_vector K pBC pB)) (Rotation_y K (ang_beta aB)))
                 (Rotation_z K (ang_alpha aB))) ?rBC)"
    by (simp add: P_def process_decay_def set_out_def compose_r_def
        bind_err_def getitem_def aBC aD aB aC Let_def)
  have "helicity_while K P (?st0, None) chain_BC = Some (Inr (fst sa))"
    using helicity_while_step [OF _ ps] by (simp add: helicity_while_Nil)
  then have "cal_helicity_angle K data ''A'' chain_BC bz bx = Some (Inr (fst sa))"
    unfolding cal_helicity_angle_def rf by simp
  with r1 r2 show ?thesis
    unfolding data_def by (simp add: claimed_r_def aBC aB)
qed

subsection \<open>Unitarity of the D-matrix\<close>

text \<open>Linear substitutions in homogeneous polynomials of two variables.\<close>

lemma binomial_expand:
  fixes x y :: real
  shows "(al * x + be * y) ^ n = (\<Sum>p\<le>n. (real (n choose p) * al ^ p * be ^ (n - p)) * (x ^ p * y ^ (n - p)))"
  by (simp add: binomial_ring power_mult_distrib mult_ac)

lemma subst_expand:
  fixes x y :: real
  assumes "a \<le> J"
  shows "(al * x + be * y) ^ a * (ga * x + de * y) ^ (J - a)
         = (\<Sum>b\<le>J. subst_coeff al be ga de J a b * (x ^ b * y ^ (J - b)))"
proof -
  define n where "n = J - a"
  define A where "A p = real (a choose p) * al ^ p * be ^ (a - p)" for p
  define B where "B q = real (n choose q) * ga ^ q * de ^ (n - q)" for q
  define F where "F p q = A p * B q * (x ^ (p + q) * y ^ (J - (p + q)))" for p q
  have J: "J = a + n" using assms by (simp add: n_def)
  have "(al * x + be * y) ^ a * (ga * x + de * y) ^ n
      = (\<Sum>p\<le>a. A p * (x ^ p * y ^ (a - p))) * (\<Sum>q\<le>n. B q * (x ^ q * y ^ (n - q)))"
    by (simp add: binomial_expand A_def B_def)
  also have "\<dots> = (\<Sum>p\<le>a. \<Sum>q\<le>n. F p q)"
    unfolding sum_product
    by (intro sum.cong refl) (simp add: F_def J power_add mult_ac flip: power_add)
  also have "\<dots> = (\<Sum>(p, q)\<in>{..a} \<times> {..n}. F p q)"
    by (simp add: sum.cartesian_product)
  also have "\<dots> = (\<Sum>(p, q)\<in>{(p, q). p + q \<le> J}. F p q)"
  proof (rule sum.mono_neutral_left)
    have "{(p, q). p + q \<le> J} \<subseteq> {..J} \<times> {..J}" by auto
    then show "finite {(p, q). p + q \<le> J}" by (rule finite_subset) simp
    show "{..a} \<times> {..n} \<subseteq> {(p, q). p + q \<le> J}" by (auto simp: J)
    show "\<forall>i\<in>{(p, q). p + q \<le> J} - {..a} \<times> {..n}. (case i of (p, q) \<Rightarrow> F p q) = 0"
      by (auto simp: F_def A_def B_def not_le)
  qed
  also have "\<dots> = (\<Sum>b\<le>J. \<Sum>p\<le>b. F p (b - p))"
    by (rule sum.triangle_reindex_eq)
  also have "\<dots> = (\<Sum>b\<le>J. subst_coeff al be ga de J a b * (x ^ b * y ^ (J - b)))"
    by (intro sum.cong refl)
       (simp add: subst_coeff_def F_def A_def B_def n_def sum_distrib_right)
  finally show ?thesis by (simp add: n_def)
qed

lemma homogeneous_coeffs_unique:
  fixes k k' :: "nat \<Rightarrow> real"
  assumes "\<And>x y. (\<Sum>b\<le>J. k b * (x ^ b * y ^ (J - b))) = (\<Sum>b\<le>J. k' b * (x ^ b * y ^ (J - b)))"
    and "b \<le> J"
  shows "k b = k' b"
proof -
  have "\<forall>x. (\<Sum>b\<le>J. k b * x ^ b) = (\<Sum>b\<le>J. k' b * x ^ b)"
    using assms(1) [of _ 1] by simp
  then show ?thesis using assms(2) by (simp add: polyfun_eq_coeffs)
qed

lemma rotation_coeffs_orthogonal:
  fixes c s :: real
  assumes cs: "c\<^sup>2 + s\<^sup>2 = 1" and a: "a \<le> J" and a': "a' \<le> J"
  shows "(\<Sum>b\<le>J. subst_coeff c (- s) s c J a b * subst_coeff c s (- s) c J b a')
         = (if a' = a then 1 else 0)"
proof -
  let ?k = "\<lambda>e. \<Sum>b\<le>J. subst_coeff c (- s) s c J a b * subst_coeff c s (- s) c J b e"
  let ?k' = "\<lambda>e. if e = a then 1 else (0::real)"
  have "(\<Sum>e\<le>J. ?k e * (x ^ e * y ^ (J - e))) = (\<Sum>e\<le>J. ?k' e * (x ^ e * y ^ (J - e)))" for x y :: real
  proof -
    define X where "X = c * x + s * y"
    define Y where "Y = - s * x + c * y"
    have "c * X + (- s) * Y = (c\<^sup>2 + s\<^sup>2) * x"
      by (simp add: X_def Y_def algebra_simps power2_eq_square)
    then have ex: "c * X + (- s) * Y = x" using cs by simp
    have "s * X + c * Y = (c\<^sup>2 + s\<^sup>2) * y"
      by (simp add: X_def Y_def algebra_simps power2_eq_square)
    then have ey: "s * X + c * Y = y" using cs by simp
    have "(\<Sum>e\<le>J. ?k e * (x ^ e * y ^ (J - e)))
        = (\<Sum>e\<le>J. \<Sum>b\<le>J. subst_coeff c (- s) s c J a b
              * (subst_coeff c s (- s) c J b e * (x ^ e * y ^ (J - e))))"
      by (simp add: sum_distrib_right mult.assoc)
    also have "\<dots> = (\<Sum>b\<le>J. \<Sum>e\<le>J. subst_coeff c (- s) s c J a b
              * (subst_coeff c s (- s) c J b e * (x ^ e * y ^ (J - e))))"
      by (rule sum.swap)
    also have "\<dots> = (\<Sum>b\<le>J. subst_coeff c (- s) s c J a b * (X ^ b * Y ^ (J - b)))"
    proof (intro sum.cong refl)
      fix b assume "b \<in> {..J}"
      then have "b \<le> J" by simp
      then have "X ^ b * Y ^ (J - b) = (\<Sum>e\<le>J. subst_coeff c s (- s) c J b e * (x ^ e * y ^ (J - e)))"
        unfolding X_def Y_def by (rule subst_expand)
      then show "(\<Sum>e\<le>J. subst_coeff c (- s) s c J a b
              * (subst_coeff c s (- s) c J b e * (x ^ e * y ^ (J - e))))
          = subst_coeff c (- s) s c J a b * (X ^ b * Y ^ (J - b))"
        by (simp only: sum_distrib_left)
    qed
    also have "\<dots> = (c * X + (- s) * Y) ^ a * (s * X + c * Y) ^ (J - a)"
      by (rule subst_expand [OF a, symmetric])
    also have "\<dots> = x ^ a * y ^ (J - a)"
      by (simp only: ex ey)
    also have "x ^ a * y ^ (J - a) = (\<Sum>e\<le>J. ?k' e * (x ^ e * y ^ (J - e)))"
      using a by (simp add: sum.delta if_distrib [of "\<lambda>t. t * _"] cong: if_cong)
    finally show ?thesis .
  qed
  then have "?k a' = ?k' a'" using a' by (rule homogeneous_coeffs_unique)
  then show ?thesis .
qed

lemma choose_fact_real:
  assumes "k \<le> n"
  shows "real (n choose k) = fact n / (fact k * fact (n - k))"
  using assms by (simp add: binomial_fact)

lemma subst_coeff_factorial:
  assumes a: "a \<le> J" and b: "b \<le> J"
  shows "subst_coeff c be ga c J a b
     = fact a * fact (J - a) *
       (\<Sum>p = a + b - J .. min a b.
          be ^ (a - p) * ga ^ (b - p) * c ^ (J + 2 * p - a - b)
            / (fact p * fact (a - p) * fact (b - p) * fact (J + p - a - b)))"
proof -
  let ?T = "\<lambda>p. (real (a choose p) * c ^ p * be ^ (a - p))
              * (real ((J - a) choose (b - p)) * ga ^ (b - p) * c ^ ((J - a) - (b - p)))"
  let ?W = "\<lambda>p. be ^ (a - p) * ga ^ (b - p) * c ^ (J + 2 * p - a - b)
            / (fact p * fact (a - p) * fact (b - p) * fact (J + p - a - b))"
  have "subst_coeff c be ga c J a b = (\<Sum>p\<le>b. ?T p)"
    by (simp add: subst_coeff_def)
  also have "\<dots> = (\<Sum>p = a + b - J .. min a b. ?T p)"
  proof (rule sum.mono_neutral_right)
    show "\<forall>p\<in>{..b} - {a + b - J .. min a b}. ?T p = 0"
    proof
      fix p assume "p \<in> {..b} - {a + b - J .. min a b}"
      then have "p \<le> b" and "a < p \<or> J - a < b - p" using a b by auto
      then show "?T p = 0" by auto
    qed
  qed auto
  also have "\<dots> = (\<Sum>p = a + b - J .. min a b. fact a * fact (J - a) * ?W p)"
  proof (intro sum.cong refl)
    fix p assume "p \<in> {a + b - J .. min a b}"
    then have p: "p \<le> a" "p \<le> b" "a + b \<le> J + p" by auto
    have e1: "(J - a) - (b - p) = J + p - a - b" using p a b by simp
    have e2: "p + ((J - a) - (b - p)) = J + 2 * p - a - b" using p a b by linarith
    have h2: "c ^ p * c ^ ((J - a) - (b - p)) = c ^ (J + 2 * p - a - b)"
      by (metis e2 power_add)
    have h3: "real (a choose p) = fact a / (fact p * fact (a - p))"
      using p by (simp add: choose_fact_real)
    have h4: "real ((J - a) choose (b - p))
        = fact (J - a) / (fact (b - p) * fact (J + p - a - b))"
      using p a b by (simp add: choose_fact_real e1)
    have "?T p = (real (a choose p) * real ((J - a) choose (b - p)))
        * ((be ^ (a - p) * ga ^ (b - p)) * (c ^ p * c ^ ((J - a) - (b - p))))"
      by (simp only: mult_ac)
    also have "\<dots> = (fact a / (fact p * fact (a - p))
          * (fact (J - a) / (fact (b - p) * fact (J + p - a - b))))
        * ((be ^ (a - p) * ga ^ (b - p)) * c ^ (J + 2 * p - a - b))"
      by (simp only: h2 h3 h4)
    also have "\<dots> = fact a * fact (J - a) * ?W p"
      by simp
    finally show "?T p = fact a * fact (J - a) * ?W p" .
  qed
  finally show ?thesis by (simp add: sum_distrib_left)
qed

lemma subst_coeff_rotation:
  assumes "a \<le> J" and "b \<le> J"
  shows "subst_coeff c (- s) s c J a b = fact a * fact (J - a) * wigner_sum J a b c s"
  unfolding subst_coeff_factorial [OF assms] wigner_sum_def wigner_term_def ..

lemma subst_coeff_rotation_transposed:
  assumes "a \<le> J" and "b \<le> J"
  shows "subst_coeff c s (- s) c J b a = fact b * fact (J - b) * wigner_sum J a b c s"
proof -
  have "(\<Sum>p = b + a - J .. min b a.
          s ^ (b - p) * (- s) ^ (a - p) * c ^ (J + 2 * p - b - a)
            / (fact p * fact (b - p) * fact (a - p) * fact (J + p - b - a)))
      = wigner_sum J a b c s"
    unfolding wigner_sum_def wigner_term_def
    by (intro sum.cong) (simp_all add: add.commute min.commute mult_ac)
  then show ?thesis
    unfolding subst_coeff_factorial [OF assms(2,1)] by simp
qed

lemma wigner_sum_orthogonal:
  assumes cs: "c\<^sup>2 + s\<^sup>2 = 1" and a: "a \<le> J" and a': "a' \<le> J"
  shows "(\<Sum>b\<le>J. (fact b * fact (J - b)) * (wigner_sum J a b c s * wigner_sum J a' b c s))
         = (if a' = a then 1 / (fact a * fact (J - a)) else 0)"
proof -
  have "(\<Sum>b\<le>J. subst_coeff c (- s) s c J a b * subst_coeff c s (- s) c J b a')
      = (\<Sum>b\<le>J. fact a * fact (J - a) *
           ((fact b * fact (J - b)) * (wigner_sum J a b c s * wigner_sum J a' b c s)))"
    by (intro sum.cong refl)
       (simp add: subst_coeff_rotation [OF a] subst_coeff_rotation_transposed [OF a'])
  also have "\<dots> = fact a * fact (J - a) *
      (\<Sum>b\<le>J. (fact b * fact (J - b)) * (wigner_sum J a b c s * wigner_sum J a' b c s))"
    by (simp only: sum_distrib_left)
  finally have "fact a * fact (J - a) *
      (\<Sum>b\<le>J. (fact b * fact (J - b)) * (wigner_sum J a b c s * wigner_sum J a' b c s))
      = (if a' = a then 1 else 0)"
    using rotation_coeffs_orthogonal [OF cs a a'] by simp
  then show ?thesis
    by (simp add: field_simps split: if_splits)
qed

text \<open>The weight table as a list of writes, each index triple written once.\<close>

lemma fold_nested_concat:
  "fold (\<lambda>x. fold g (h x)) xs = fold g (concat (map h xs))"
  by (induction xs) simp_all

lemma fold_write_other:
  assumes "z \<notin> key ` set T"
  shows "fold (\<lambda>t r. r(key t := val t)) T r z = r z"
  using assms by (induction T arbitrary: r) auto

lemma fold_write_at:
  assumes "inj_on key (set T)" and "t \<in> set T"
  shows "fold (\<lambda>t r. r(key t := val t)) T r (key t) = val t"
  using assms
proof (induction T arbitrary: r)
  case Nil
  then show ?case by simp
next
  case (Cons u T)
  have inj: "inj_on key (set T)" using Cons.prems(1) by (simp add: inj_on_def)
  show ?case
  proof (cases "t \<in> set T")
    case True
    then show ?thesis using Cons.IH [OF inj True] by simp
  next
    case False
    then have tu: "t = u" using Cons.prems(2) by simp
    have "key u \<notin> key ` set T"
    proof
      assume "key u \<in> key ` set T"
      then obtain v where v: "v \<in> set T" "key v = key u" by auto
      then have "v = u" using Cons.prems(1) by (auto simp: inj_on_def)
      with v False tu show False by simp
    qed
    then have "fold (\<lambda>t r. r(key t := val t)) T (r(key u := val u)) (key u)
        = (r(key u := val u)) (key u)"
      by (rule fold_write_other)
    then show ?thesis unfolding tu by (simp only: fold_simps comp_def fun_upd_same)
  qed
qed

lemma range2_m: "range2 (- int j) (int j + 1) = map (\<lambda>a. 2 * int a - int j) [0 ..< Suc j]"
proof -
  have "nat ((int j + 1 - (- int j) + 1) div 2) = Suc j" by simp
  then show ?thesis by (simp add: range2_def del: upt_Suc)
qed

lemma range2_k:
  assumes "a \<le> j" and "b \<le> j"
  shows "range2 (max 0 ((2 * int b - int j) - (2 * int a - int j)))
           (min (int j - (2 * int a - int j)) (int j + (2 * int b - int j)) + 1)
         = map (\<lambda>i. 2 * int ((b - a) + i)) [0 ..< cnt j a b]"
proof -
  have lo: "max 0 ((2 * int b - int j) - (2 * int a - int j)) = 2 * int (b - a)"
  proof (cases "a \<le> b")
    case True
    then have "int (b - a) = int b - int a" by (rule of_nat_diff)
    with True show ?thesis by simp
  next
    case False
    then show ?thesis by simp
  qed
  have "int (j - a) = int j - int a" using assms(1) by (rule of_nat_diff)
  then have h1: "int j - (2 * int a - int j) = 2 * int (j - a)" by simp
  have h2: "int j + (2 * int b - int j) = 2 * int b" by simp
  have h3: "min (2 * int (j - a)) (2 * int b) = 2 * int (min (j - a) b)"
    by (simp add: min_def)
  have hi: "min (int j - (2 * int a - int j)) (int j + (2 * int b - int j)) + 1
      = 2 * int (min (j - a) b) + 1"
    by (simp only: h1 h2 h3)
  have m: "min (j - a) b - (b - a) = min (min a b) (min (j - a) (j - b))"
  proof (cases "a \<le> b")
    case True
    then show ?thesis using assms by (auto simp: min_def)
  next
    case False
    then show ?thesis using assms by (auto simp: min_def)
  qed
  have "b - a \<le> min (j - a) b" using assms by linarith
  then have "int (min (j - a) b - (b - a)) = int (min (j - a) b) - int (b - a)"
    by (rule of_nat_diff)
  then have e: "2 * int (min (j - a) b) + 1 - 2 * int (b - a) + 1
      = 2 * (int (min (j - a) b - (b - a)) + 1)"
    by simp
  have d: "(2 * int (min (j - a) b) + 1 - 2 * int (b - a) + 1) div 2
      = int (min (j - a) b - (b - a)) + 1"
    by (subst e) simp
  have n: "nat (int k + 1) = Suc k" for k by simp
  have c: "nat ((2 * int (min (j - a) b) + 1 - 2 * int (b - a) + 1) div 2) = cnt j a b"
    unfolding d m cnt_def by (rule n)
  show ?thesis
    unfolding lo hi range2_def c by (simp add: distrib_left del: upt_Suc)
qed

lemma key_l:
  "nat ((2 * (2 * int ((b - a) + i)) + ((2 * int a - int j) - (2 * int b - int j))) div 2) = lidx a b i"
proof -
  have "2 * (2 * int ((b - a) + i)) + ((2 * int a - int j) - (2 * int b - int j))
      = 2 * int (lidx a b i)"
  proof (cases "a \<le> b")
    case True
    then have "int (b - a) = int b - int a" by (rule of_nat_diff)
    with True show ?thesis by (simp add: lidx_def)
  next
    case False
    then have "int (a - b) = int a - int b" by (simp add: of_nat_diff)
    with False show ?thesis by (simp add: lidx_def)
  qed
  then show ?thesis by simp
qed

lemma key_ab: "nat (((2 * int a - int j) + int j) div 2) = a"
  by simp

lemma small_d_weight_inner:
  assumes "a \<le> j" and "b \<le> j"
  shows "fold (\<lambda>k (ret :: nat \<times> nat \<times> nat \<Rightarrow> real).
            ret ((nat ((2 * k + ((2 * int a - int j) - (2 * int b - int j))) div 2),
                  nat (((2 * int a - int j) + int j) div 2),
                  nat (((2 * int b - int j) + int j) div 2))
               := weight_tmp (int j) (2 * int a - int j) (2 * int b - int j) k))
          (range2 (max 0 ((2 * int b - int j) - (2 * int a - int j)))
             (min (int j - (2 * int a - int j)) (int j + (2 * int b - int j)) + 1))
      = fold (\<lambda>i. write_entry j (a, b, i)) [0 ..< cnt j a b]"
  unfolding range2_k [OF assms] fold_map comp_def write_entry_def wval_def prod.case key_l key_ab ..

lemma small_d_weight_writes:
  "small_d_weight j = fold (write_entry j) (writes j) (\<lambda>_. 0)"
proof -
  have "small_d_weight j
      = fold (\<lambda>a. fold (\<lambda>b. fold (\<lambda>i. write_entry j (a, b, i)) [0 ..< cnt j a b]) [0 ..< Suc j])
          [0 ..< Suc j] (\<lambda>_. 0)"
    unfolding small_d_weight_def range2_m fold_map
    apply (rule fold_cong [OF refl refl])
    subgoal for a
      apply (simp only: comp_def)
      apply (rule ext)
      apply (rule fold_cong [OF refl refl])
      subgoal for s b
        apply (rule small_d_weight_inner)
         apply auto
        done
      done
    done
  also have "\<dots> = fold (write_entry j) (writes j) (\<lambda>_. 0)"
    unfolding writes_def fold_nested_concat [symmetric] fold_map comp_def ..
  finally show ?thesis .
qed

lemma write_entry_upd: "write_entry j = (\<lambda>t r. r(wkey t := wv j t))"
  by (simp add: fun_eq_iff write_entry_def wkey_def wv_def split: prod.split)

lemma inj_wkey: "inj_on wkey A"
  by (auto simp: inj_on_def wkey_def lidx_def)

lemma set_writes: "(a, b, i) \<in> set (writes j) \<longleftrightarrow> a \<le> j \<and> b \<le> j \<and> i < cnt j a b"
  unfolding writes_def by (auto simp: less_Suc_eq_le image_iff simp del: upt_Suc)

lemma small_d_weight_written:
  assumes "a \<le> j" and "b \<le> j" and "i < cnt j a b"
  shows "small_d_weight j (lidx a b i, a, b) = wval j a b i"
proof -
  have "(a, b, i) \<in> set (writes j)" using assms by (simp add: set_writes)
  then have "fold (\<lambda>t r. r(wkey t := wv j t)) (writes j) (\<lambda>_. 0) (wkey (a, b, i)) = wv j (a, b, i)"
    by (rule fold_write_at [OF inj_wkey])
  then show ?thesis
    by (simp add: small_d_weight_writes write_entry_upd wkey_def wv_def)
qed

lemma small_d_weight_unwritten:
  assumes "l \<notin> lidx a b ` {..<cnt j a b}"
  shows "small_d_weight j (l, a, b) = 0"
proof -
  have "(l, a, b) \<notin> wkey ` set (writes j)"
  proof
    assume "(l, a, b) \<in> wkey ` set (writes j)"
    then obtain t where t: "t \<in> set (writes j)" "wkey t = (l, a, b)" by auto
    obtain a' b' i where t': "t = (a', b', i)" by (cases t)
    with t have "a' = a" "b' = b" "l = lidx a b i" "i < cnt j a b"
      by (auto simp: wkey_def set_writes)
    with assms show False by auto
  qed
  then have "fold (\<lambda>t r. r(wkey t := wv j t)) (writes j) (\<lambda>_. 0) (l, a, b) = (\<lambda>_. 0) (l, a, b)"
    by (rule fold_write_other)
  then show ?thesis
    by (simp add: small_d_weight_writes write_entry_upd)
qed

lemma lidx_le:
  assumes "a \<le> j" and "b \<le> j" and "i < cnt j a b"
  shows "lidx a b i \<le> j"
proof (cases "a \<le> b")
  case True
  then have "i \<le> a" "i \<le> j - b" using assms by (auto simp: cnt_def)
  then show ?thesis using True assms by (simp add: lidx_def)
next
  case False
  then have "i \<le> b" "i \<le> j - a" using assms by (auto simp: cnt_def)
  then show ?thesis using False assms by (simp add: lidx_def)
qed

lemma small_d_matrix_sum:
  assumes a: "a \<le> j" and b: "b \<le> j"
  shows "small_d_matrix theta j a b
     = (\<Sum>i<cnt j a b. (sin (theta / 2) ^ lidx a b i * cos (theta / 2) ^ (j - lidx a b i))
                          * wval j a b i)"
proof -
  let ?sc = "\<lambda>l. sin (theta / 2) ^ l * cos (theta / 2) ^ (j - l)"
  have "small_d_matrix theta j a b = (\<Sum>l\<le>j. ?sc l * small_d_weight j (l, a, b))"
    by (simp add: small_d_matrix_def)
  also have "\<dots> = (\<Sum>l\<in>lidx a b ` {..<cnt j a b}. ?sc l * small_d_weight j (l, a, b))"
  proof (rule sum.mono_neutral_right)
    show "lidx a b ` {..<cnt j a b} \<subseteq> {..j}"
      using lidx_le [OF a b] by auto
    show "\<forall>l\<in>{..j} - lidx a b ` {..<cnt j a b}. ?sc l * small_d_weight j (l, a, b) = 0"
      by (simp add: small_d_weight_unwritten)
  qed simp
  also have "\<dots> = (\<Sum>i<cnt j a b. ?sc (lidx a b i) * small_d_weight j (lidx a b i, a, b))"
    by (subst sum.reindex) (auto simp: inj_on_def lidx_def)
  also have "\<dots> = (\<Sum>i<cnt j a b. ?sc (lidx a b i) * wval j a b i)"
    by (intro sum.cong refl) (simp add: small_d_weight_written [OF a b])
  finally show ?thesis .
qed

text \<open>The small-d matrix in closed form.\<close>

lemma f_double: "f (2 * int n) = fact n"
  by (simp add: f_def)

lemma weight_tmp_closed:
  assumes a: "a \<le> j" and b: "b \<le> j" and p: "p \<le> a" "p \<le> b" "a + b \<le> j + p"
  shows "weight_tmp (int j) (2 * int a - int j) (2 * int b - int j) (2 * int (b - p))
     = (- 1) ^ (a - p) * sqrt (real (fact a * fact (j - a) * fact b * fact (j - b)))
         / real (fact (j + p - a - b) * fact p * fact (a - p) * fact (b - p))"
proof -
  have i1: "int (j - a) = int j - int a" "int (j - b) = int j - int b"
    "int (b - p) = int b - int p" "int (a - p) = int a - int p"
    using a b p by (simp_all add: of_nat_diff)
  have i2: "int (j + p - (a + b)) = int j + int p - int a - int b"
    using p(3) by (simp add: of_nat_diff)
  have e1: "int j + (2 * int a - int j) = 2 * int a" by simp
  have e2: "int j - (2 * int a - int j) = 2 * int (j - a)" by (simp add: i1)
  have e3: "int j + (2 * int b - int j) = 2 * int b" by simp
  have e4: "int j - (2 * int b - int j) = 2 * int (j - b)" by (simp add: i1)
  have e5: "2 * int (j - a) - 2 * int (b - p) = 2 * int (j + p - a - b)"
    by (simp add: i1 i2)
  have e6: "2 * int b - 2 * int (b - p) = 2 * int p"
    by (simp add: i1)
  have e7: "2 * int (b - p) + (2 * int a - int j) - (2 * int b - int j) = 2 * int (a - p)"
    by (simp add: i1)
  have e8: "nat ((2 * int (a - p)) div 2) = a - p" by simp
  show ?thesis
    unfolding weight_tmp_def Let_def e1 e2 e3 e4 e5 e6 e7 e8 f_double ..
qed

lemma power_neg_split: "(- s) ^ n = (- 1) ^ n * (s :: real) ^ n"
  by (simp add: power_minus [of s])

lemma small_d_term:
  assumes a: "a \<le> j" and b: "b \<le> j" and p: "p \<le> a" "p \<le> b" "a + b \<le> j + p"
  shows "(s ^ ((a - p) + (b - p)) * c ^ (j - ((a - p) + (b - p))))
           * weight_tmp (int j) (2 * int a - int j) (2 * int b - int j) (2 * int (b - p))
      = sqrt (real (fact a * fact (j - a) * fact b * fact (j - b))) * wigner_term j a b c s p"
proof -
  have "j - ((a - p) + (b - p)) = j + 2 * p - a - b" using a b p by simp
  then show ?thesis
    unfolding weight_tmp_closed [OF assms] wigner_term_def power_neg_split [of s]
    by (simp add: power_add mult_ac)
qed

lemma reindex_facts:
  assumes a: "a \<le> j" and b: "b \<le> j" and p: "a + b - j \<le> p" "p \<le> min a b"
  shows "lidx a b (min a b - p) = (a - p) + (b - p)"
    and "(b - a) + (min a b - p) = b - p"
    and "min a b - p < cnt j a b"
proof -
  show "lidx a b (min a b - p) = (a - p) + (b - p)"
    using p(2) by (cases "a \<le> b") (simp_all add: lidx_def min_def)
  show "(b - a) + (min a b - p) = b - p"
    using p(2) by (cases "a \<le> b") (simp_all add: min_def)
  show "min a b - p < cnt j a b"
  proof (cases "a \<le> b")
    case True
    then have "a - p \<le> a" "a - p \<le> j - b" using a b p by simp_all
    with True a b show ?thesis by (auto simp: cnt_def min_def)
  next
    case False
    then have "b - p \<le> b" "b - p \<le> j - a" using a b p by simp_all
    with False a b show ?thesis by (auto simp: cnt_def min_def)
  qed
qed

lemma reindex_back:
  assumes a: "a \<le> j" and b: "b \<le> j" and i: "i < cnt j a b"
  shows "min a b - (min a b - i) = i" and "a + b - j \<le> min a b - i"
proof -
  have i': "i \<le> min a b" "i \<le> j - a" "i \<le> j - b" using i by (auto simp: cnt_def)
  show "min a b - (min a b - i) = i" using i'(1) by simp
  show "a + b - j \<le> min a b - i"
  proof (cases "a \<le> b")
    case True
    then show ?thesis using a b i' by (simp add: min_def)
  next
    case False
    then show ?thesis using a b i' by (simp add: min_def)
  qed
qed

lemma small_d_matrix_wigner:
  assumes a: "a \<le> j" and b: "b \<le> j"
  shows "small_d_matrix theta j a b
     = sqrt (real (fact a * fact (j - a) * fact b * fact (j - b)))
         * wigner_sum j a b (cos (theta / 2)) (sin (theta / 2))"
proof -
  let ?s = "sin (theta / 2)" and ?c = "cos (theta / 2)"
  let ?F = "\<lambda>i. (?s ^ lidx a b i * ?c ^ (j - lidx a b i)) * wval j a b i"
  let ?N = "sqrt (real (fact a * fact (j - a) * fact b * fact (j - b)))"
  have "small_d_matrix theta j a b = (\<Sum>i<cnt j a b. ?F i)"
    by (rule small_d_matrix_sum [OF a b])
  also have "\<dots> = (\<Sum>p = a + b - j .. min a b. ?N * wigner_term j a b ?c ?s p)"
  proof (rule sum.reindex_bij_witness [where i = "\<lambda>p. min a b - p" and j = "\<lambda>i. min a b - i"])
    fix i assume "i \<in> {..<cnt j a b}"
    then have i: "i < cnt j a b" by simp
    show "min a b - (min a b - i) = i" by (rule reindex_back(1) [OF a b i])
    have p: "a + b - j \<le> min a b - i" "min a b - i \<le> min a b"
      using reindex_back(2) [OF a b i] by (auto simp: min_def)
    show "min a b - i \<in> {a + b - j .. min a b}"
      unfolding atLeastAtMost_iff using p by (rule conjI)
    have q: "min a b - i \<le> a" "min a b - i \<le> b" "a + b \<le> j + (min a b - i)"
      using p(1) by (auto simp: min_def)
    have "?F i = ?F (min a b - (min a b - i))"
      by (simp only: reindex_back(1) [OF a b i])
    also have "\<dots> = ?N * wigner_term j a b ?c ?s (min a b - i)"
      unfolding wval_def reindex_facts(1,2) [OF a b p]
      by (rule small_d_term [OF a b q])
    finally show "?N * wigner_term j a b ?c ?s (min a b - i) = ?F i" by simp
  next
    fix p assume "p \<in> {a + b - j .. min a b}"
    then have p: "a + b - j \<le> p" "p \<le> min a b" by simp_all
    show "min a b - (min a b - p) = p" using p(2) by simp
    show "min a b - p \<in> {..<cnt j a b}"
      using reindex_facts(3) [OF a b p] by simp
  qed
  finally show ?thesis
    by (simp add: wigner_sum_def sum_distrib_left)
qed

text \<open>Orthonormal rows.\<close>

lemma sqrt_fact_split:
  "sqrt (real (fact a * fact (j - a) * fact b * fact (j - b)))
     = sqrt (real (fact a * fact (j - a))) * sqrt (real (fact b * fact (j - b)))"
  by (simp add: real_sqrt_mult mult.assoc)

lemma small_d_rows_orthonormal:
  assumes a: "a \<le> j" and a': "a' \<le> j"
  shows "(\<Sum>b\<le>j. small_d_matrix theta j a b * small_d_matrix theta j a' b)
         = (if a' = a then 1 else 0)"
proof -
  let ?s = "sin (theta / 2)" and ?c = "cos (theta / 2)"
  let ?A = "\<lambda>a. real (fact a * fact (j - a))"
  have cs: "?c\<^sup>2 + ?s\<^sup>2 = 1" by (rule sin_cos_squared_add2)
  have "(\<Sum>b\<le>j. small_d_matrix theta j a b * small_d_matrix theta j a' b)
      = (\<Sum>b\<le>j. (sqrt (?A a) * sqrt (?A a'))
            * ((fact b * fact (j - b)) * (wigner_sum j a b ?c ?s * wigner_sum j a' b ?c ?s)))"
  proof (intro sum.cong refl)
    fix b assume "b \<in> {..j}"
    then have b: "b \<le> j" by simp
    have "sqrt (?A b) * sqrt (?A b) = fact b * fact (j - b)" by simp
    then show "small_d_matrix theta j a b * small_d_matrix theta j a' b
        = (sqrt (?A a) * sqrt (?A a'))
            * ((fact b * fact (j - b)) * (wigner_sum j a b ?c ?s * wigner_sum j a' b ?c ?s))"
      unfolding small_d_matrix_wigner [OF a b] small_d_matrix_wigner [OF a' b] sqrt_fact_split
      by (simp add: mult_ac)
  qed
  also have "\<dots> = (sqrt (?A a) * sqrt (?A a'))
      * (\<Sum>b\<le>j. (fact b * fact (j - b)) * (wigner_sum j a b ?c ?s * wigner_sum j a' b ?c ?s))"
    by (simp only: sum_distrib_left)
  also have "\<dots> = (sqrt (?A a) * sqrt (?A a')) * (if a' = a then 1 / (fact a * fact (j - a)) else 0)"
    by (simp only: wigner_sum_orthogonal [OF cs a a'])
  also have "\<dots> = (if a' = a then 1 else 0)"
    by simp
  finally show ?thesis .
qed

lemma entry_times_cnj:
  "D_matrix_conj_entry alpha beta gamma j a b * cnj (D_matrix_conj_entry alpha beta gamma j a' b)
     = (cis (m_arange j a * alpha) * cnj (cis (m_arange j a' * alpha)))
         * complex_of_real (small_d_matrix beta j a b * small_d_matrix beta j a' b)"
proof -
  define u where "u = cis (m_arange j a * alpha)"
  define u' where "u' = cis (m_arange j a' * alpha)"
  define v where "v = cis (m_arange j b * gamma)"
  define r where "r = complex_of_real (small_d_matrix beta j a b)"
  define r' where "r' = complex_of_real (small_d_matrix beta j a' b)"
  have vv: "v * cnj v = 1" by (simp add: v_def cis_cnj cis_mult)
  have cr: "cnj r' = r'" by (simp add: r'_def)
  have "D_matrix_conj_entry alpha beta gamma j a b = (u * v) * r"
    by (simp add: D_matrix_conj_entry_def exp_i_cis u_def v_def r_def)
  moreover have "D_matrix_conj_entry alpha beta gamma j a' b = (u' * v) * r'"
    by (simp add: D_matrix_conj_entry_def exp_i_cis u'_def v_def r'_def)
  ultimately have "D_matrix_conj_entry alpha beta gamma j a b
        * cnj (D_matrix_conj_entry alpha beta gamma j a' b)
      = ((u * v) * r) * ((cnj u' * cnj v) * cnj r')"
    by (simp only: complex_cnj_mult)
  also have "\<dots> = (u * cnj u') * (v * cnj v) * (r * r')"
    by (simp only: cr mult_ac)
  also have "\<dots> = (u * cnj u') * (r * r')"
    by (simp only: vv mult_1_right)
  finally show ?thesis
    by (simp only: u_def u'_def r_def r'_def of_real_mult)
qed

lemma D_matrix_conj_rows_orthonormal:
  assumes a: "a \<le> j" and a': "a' \<le> j"
  shows "(\<Sum>b\<le>j. D_matrix_conj_entry alpha beta gamma j a b
                 * cnj (D_matrix_conj_entry alpha beta gamma j a' b))
         = (if a' = a then 1 else 0)"
proof -
  let ?d = "small_d_matrix beta j"
  let ?u = "cis (m_arange j a * alpha) * cnj (cis (m_arange j a' * alpha))"
  have "(\<Sum>b\<le>j. D_matrix_conj_entry alpha beta gamma j a b
                 * cnj (D_matrix_conj_entry alpha beta gamma j a' b))
      = (\<Sum>b\<le>j. ?u * complex_of_real (?d a b * ?d a' b))"
    by (simp only: entry_times_cnj)
  also have "\<dots> = ?u * complex_of_real (\<Sum>b\<le>j. ?d a b * ?d a' b)"
    by (simp only: sum_distrib_left of_real_sum)
  also have "\<dots> = ?u * complex_of_real (if a' = a then 1 else 0)"
    by (simp only: small_d_rows_orthonormal [OF a a'])
  also have "\<dots> = (if a' = a then 1 else 0)"
    by (simp add: cis_cnj cis_mult)
  finally show ?thesis .
qed

text \<open>
  C5.  For every spin label \<open>j\<close> and all real Euler angles the matrix that
  \<^verbatim>\<open>D_matrix_conj\<close> returns for an event, multiplied by its conjugate transpose, is the
  identity matrix of size \<open>j + 1\<close> (the spin being \<open>j / 2\<close>, that is \<open>2 spin + 1\<close>).
\<close>

theorem D_matrix_conj_unitary:
  "times_adjoint (D_matrix_conj alpha beta gamma j) = identity_matrix (j + 1)"
proof -
  let ?D = "D_matrix_conj_entry alpha beta gamma j"
  define ns where "ns = [0 ..< j + 1]"
  have ns: "a \<le> j" if "a \<in> set ns" for a using that by (auto simp: ns_def)
  have dot: "(\<Sum>(x, y)\<leftarrow>zip (map (?D a) ns) (map (?D a') ns). x * cnj y)
      = (\<Sum>b\<le>j. ?D a b * cnj (?D a' b))" for a a'
  proof -
    have "zip (map (?D a) ns) (map (?D a') ns) = map (\<lambda>b. (?D a b, ?D a' b)) ns"
      by (simp add: zip_map_map zip_same_conv_map)
    then have "(\<Sum>(x, y)\<leftarrow>zip (map (?D a) ns) (map (?D a') ns). x * cnj y)
        = (\<Sum>b\<leftarrow>ns. ?D a b * cnj (?D a' b))"
      by (simp add: comp_def)
    also have "\<dots> = (\<Sum>b\<in>set ns. ?D a b * cnj (?D a' b))"
      unfolding ns_def by (rule interv_sum_list_conv_sum_set_nat)
    also have "set ns = {..j}" by (auto simp: ns_def)
    finally show ?thesis .
  qed
  have "times_adjoint (D_matrix_conj alpha beta gamma j)
      = map (\<lambda>a. map (\<lambda>a'. (\<Sum>(x, y)\<leftarrow>zip (map (?D a) ns) (map (?D a') ns). x * cnj y)) ns) ns"
    unfolding times_adjoint_def D_matrix_conj_def ns_def [symmetric]
    by (simp only: map_map comp_def)
  also have "\<dots> = map (\<lambda>a. map (\<lambda>a'. if a = a' then 1 else 0) ns) ns"
  proof (intro map_cong refl)
    fix a a' assume "a \<in> set ns" "a' \<in> set ns"
    then have "a \<le> j" "a' \<le> j" by (simp_all add: ns)
    then show "(\<Sum>(x, y)\<leftarrow>zip (map (?D a) ns) (map (?D a') ns). x * cnj y)
        = (if a = a' then 1 else 0)"
      unfolding dot by (simp add: D_matrix_conj_rows_orthonormal eq_commute)
  qed
  finally show ?thesis
    by (simp only: identity_matrix_def ns_def)
qed

end
